theory Spec2Isabelle
  imports Complex_Main "HOL-Library.Word" "HOL-Library.Signed_Division" "HOL-Library.Monad_Syntax"
begin

section \<open>The concentric-ring detector of CCircleDetect.cpp\<close>

text \<open>
  The development embeds \<^verbatim>\<open>src/jockeys/cameradetection/src/imageproc/CCircleDetect.cpp\<close>.
  Conventions:
  \<^item> a C \<^verbatim>\<open>int\<close> is an \<^typ>\<open>int\<close>; \<^verbatim>\<open>/\<close> and \<^verbatim>\<open>%\<close> on ints are the truncating
    \<open>sdiv\<close> and \<open>smod\<close>; the values that occur (pixel counts, indices, sums of at most
    \<open>3 * 255 * len\<close>) stay far below \<open>2^31\<close> for any frame that fits in memory, so
    wrap-around is not modelled;
  \<^item> a C \<^verbatim>\<open>float\<close> is a \<^typ>\<open>real\<close>: rounding is not modelled;
  \<^item> an array is a list; a read or write outside the allocated range (undefined behaviour
    in C++) makes the enclosing function return \<open>None\<close>;
  \<^item> the members of the class are split into the parameters that none of the modelled
    functions assigns (\<open>config\<close>) and the mutable rest (\<open>detector\<close>);
  \<^item> \<^verbatim>\<open>printf\<close> and the timers are dropped.
  The header \<^verbatim>\<open>CCircleDetect.h\<close> is not part of the sources at hand: the field types are
  read off the uses in the .cpp file, and the constant \<^verbatim>\<open>MAX_SEGMENTS\<close> is a parameter.
\<close>

subsection \<open>Arrays with checked indices\<close>

definition rd :: "'a list \<Rightarrow> int \<Rightarrow> 'a option" where
  "rd xs i = (if 0 \<le> i \<and> i < int (length xs) then Some (xs ! nat i) else None)"

definition wr :: "'a list \<Rightarrow> int \<Rightarrow> 'a \<Rightarrow> 'a list option" where
  "wr xs i v = (if 0 \<le> i \<and> i < int (length xs) then Some (xs[nat i := v]) else None)"

subsection \<open>Data\<close>

text \<open>\<^verbatim>\<open>SSegment\<close>; the fields carry the prefix \<open>s_\<close>.\<close>

record SSegment =
  s_x :: real
  s_y :: real
  s_angle :: real
  s_horizontal :: real
  s_size :: int
  s_maxy :: int
  s_maxx :: int
  s_miny :: int
  s_minx :: int
  s_mean :: int
  s_type :: int
  s_roundness :: real
  s_bwRatio :: real
  s_round :: bool
  s_valid :: bool
  s_m0 :: real
  s_m1 :: real
  s_v0 :: real
  s_v1 :: real

text \<open>\<^verbatim>\<open>CRawImage\<close>: the packed samples and what \<^verbatim>\<open>getwidth()\<close> returns.\<close>

record CRawImage =
  data :: "8 word list"
  getwidth :: int

text \<open>The members of \<^verbatim>\<open>CCircleDetect\<close> that the modelled functions only read.\<close>

record config =
  width :: int
  height :: int
  len :: int
  MAX_SEGMENTS :: int
  minSize :: int
  maxFailed :: int
  diameterRatio :: real
  outerAreaRatio :: real
  innerAreaRatio :: real
  areasRatio :: real
  circularTolerance :: real
  ratioTolerance :: real
  circularityTolerance :: real
  centerDistanceToleranceRatio :: real
  centerDistanceToleranceAbs :: real
  track :: bool
  debug :: bool
  draw :: bool

text \<open>The members that they assign.\<close>

record detector =
  buffer :: "int list"
  queue :: "int list"
  queueStart :: int
  queueEnd :: int
  queueOldStart :: int
  numSegments :: int
  segmentArray :: "SSegment list"
  threshold :: int
  lastThreshold :: int
  numFailed :: int
  lastTrackOK :: bool
  drawAll :: bool

subsection \<open>changeThreshold\<close>

function changeThreshold_loop :: "int \<Rightarrow> int \<Rightarrow> int \<times> int" where
  "changeThreshold_loop dum div' =
     (if dum > 1 then changeThreshold_loop (dum sdiv 2) (div' * 2) else (dum, div'))"
  by pat_completeness auto
termination
  by (relation "measure (\<lambda>(dum, div'). nat dum)") (auto simp: signed_divide_int_def)

declare changeThreshold_loop.simps [simp del]

definition changeThreshold :: "detector \<Rightarrow> bool \<times> detector" where
  "changeThreshold st =
     (let div' = snd (changeThreshold_loop (numFailed st) 1);
          step = 256 sdiv div'
      in (step > 16,
          st\<lparr>threshold := 3 * (step * (numFailed st - div') + step sdiv 2)\<rparr>))"

subsection \<open>Counted loops\<close>

text \<open>
  \<open>for_loop is body s\<close> runs \<open>body\<close> for the indices \<open>is\<close> in order and stops at the first
  failure. A C loop \<^verbatim>\<open>for (int i = a; i < b; i++)\<close> whose body assigns neither \<open>i\<close> nor
  the bounds is \<open>for_loop [a..b - 1]\<close>.
\<close>

fun for_loop :: "int list \<Rightarrow> (int \<Rightarrow> 's \<Rightarrow> 's option) \<Rightarrow> 's \<Rightarrow> 's option" where
  "for_loop [] body s = Some s"
| "for_loop (i # is) body s =
     (case body i s of None \<Rightarrow> None | Some s' \<Rightarrow> for_loop is body s')"

subsection \<open>bufferCleanup\<close>

text \<open>\<^verbatim>\<open>memset(buffer, 0, sizeof(int) * len)\<close>.\<close>

definition memset0 :: "int list \<Rightarrow> int \<Rightarrow> int list option" where
  "memset0 buf n =
     (if 0 \<le> n \<and> n \<le> int (length buf)
      then Some (replicate (nat n) 0 @ drop (nat n) buf) else None)"

definition bufferCleanup :: "config \<Rightarrow> SSegment \<Rightarrow> detector \<Rightarrow> detector option" where
  "bufferCleanup cfg init st =
     (let pos = (height cfg - 1) * width cfg in
      if s_valid init = False \<or> track cfg = False \<or> lastTrackOK st = False then do {
        buf \<leftarrow> memset0 (buffer st) (len cfg);
        buf \<leftarrow> for_loop [0..width cfg - 1]
                 (\<lambda>i buf. do { buf \<leftarrow> wr buf i (- 1000); wr buf (pos + i) (- 1000) }) buf;
        buf \<leftarrow> for_loop [0..height cfg - 1]
                 (\<lambda>i buf. do { buf \<leftarrow> wr buf (width cfg * i) (- 1000);
                               wr buf (width cfg * i + width cfg - 1) (- 1000) }) buf;
        Some (st\<lparr>buffer := buf\<rparr>)
      } else do {
        let ix = max (s_minx init - 2) 1;
        let ax = min (s_maxx init + 2) (width cfg - 2);
        let iy = max (s_miny init - 2) 1;
        let ay = min (s_maxy init + 2) (height cfg - 2);
        buf \<leftarrow> for_loop [iy..ay - 1]
                 (\<lambda>y buf. let pos = y * width cfg in
                    for_loop [ix..ax - 1] (\<lambda>x buf. wr buf (pos + x) 0) buf) (buffer st);
        Some (st\<lparr>buffer := buf\<rparr>)
      })"

subsection \<open>examineSegment\<close>

text \<open>The conversion of a \<^verbatim>\<open>float\<close> to an \<^verbatim>\<open>int\<close> truncates towards zero.\<close>

definition trunc :: "real \<Rightarrow> int" where
  "trunc r = (if 0 \<le> r then \<lfloor>r\<rfloor> else \<lceil>r\<rceil>)"

text \<open>
  The classification of the pixel at \<open>pos\<close>:
  \<^verbatim>\<open>ptr = &img->data[pos*3]; ((ptr[0]+ptr[1]+ptr[2]) > threshold) - 2\<close>.
\<close>

definition pixel_sum :: "CRawImage \<Rightarrow> int \<Rightarrow> int option" where
  "pixel_sum img pos = do {
     p0 \<leftarrow> rd (data img) (pos * 3);
     p1 \<leftarrow> rd (data img) (pos * 3 + 1);
     p2 \<leftarrow> rd (data img) (pos * 3 + 2);
     Some (uint p0 + uint p1 + uint p2)
   }"

definition classify :: "CRawImage \<Rightarrow> int \<Rightarrow> int \<Rightarrow> int option" where
  "classify img thr pos = do {
     s \<leftarrow> pixel_sum img pos;
     Some ((if s > thr then 1 else 0) - 2)
   }"

text \<open>
  The block that classifies the pixel at \<open>pos\<close> if its label is still 0 (lines 103 to 106,
  and again at lines 113, 123, 133 and 240).
\<close>

definition classify_at :: "CRawImage \<Rightarrow> int \<Rightarrow> detector \<Rightarrow> detector option" where
  "classify_at img pos st = do {
     b \<leftarrow> rd (buffer st) pos;
     if b = 0 then do {
       c \<leftarrow> classify img (threshold st) pos;
       buf \<leftarrow> wr (buffer st) pos c;
       Some (st\<lparr>buffer := buf\<rparr>)
     } else Some st
   }"

text \<open>
  One of the four neighbour blocks of the flood fill (lines 102 to 141), without the
  update of the bounding box: the pixel is classified if it is still 0, and if its label is
  \<open>type\<close> it is pushed and relabelled. The flag tells whether it was pushed.
\<close>

definition visit :: "CRawImage \<Rightarrow> int \<Rightarrow> int \<Rightarrow> detector \<Rightarrow> (bool \<times> detector) option" where
  "visit img type pos st = do {
     st \<leftarrow> classify_at img pos st;
     b \<leftarrow> rd (buffer st) pos;
     if b = type then do {
       q \<leftarrow> wr (queue st) (queueEnd st) pos;
       buf \<leftarrow> wr (buffer st) pos (numSegments st);
       Some (True, st\<lparr>queue := q, queueEnd := queueEnd st + 1, buffer := buf\<rparr>)
     } else Some (False, st)
   }"

text \<open>The body of the \<^verbatim>\<open>while (queueEnd > queueStart)\<close> loop; the locals are
  \<open>(minx, maxx, miny, maxy)\<close>.\<close>

type_synonym flood = "detector \<times> int \<times> int \<times> int \<times> int"

definition flood_step :: "config \<Rightarrow> CRawImage \<Rightarrow> int \<Rightarrow> flood \<Rightarrow> flood option" where
  "flood_step cfg img type s = (case s of (st, minx, maxx, miny, maxy) \<Rightarrow> do {
     position \<leftarrow> rd (queue st) (queueStart st);
     let st = st\<lparr>queueStart := queueStart st + 1\<rparr>;
     let pos = position + 1;
     (p, st) \<leftarrow> visit img type pos st;
     let maxx = (if p then max maxx (pos smod width cfg) else maxx);
     let pos = position - 1;
     (p, st) \<leftarrow> visit img type pos st;
     let minx = (if p then min minx (pos smod width cfg) else minx);
     let pos = position - width cfg;
     (p, st) \<leftarrow> visit img type pos st;
     let miny = (if p then min miny (pos sdiv width cfg) else miny);
     let pos = position + width cfg;
     (p, st) \<leftarrow> visit img type pos st;
     let maxy = (if p then max maxy (pos sdiv width cfg) else maxy);
     Some (st, minx, maxx, miny, maxy)
   })"

lemma visit_queue:
  assumes "visit img type pos st = Some (p, st')"
  shows "length (queue st') = length (queue st) \<and> queueStart st' = queueStart st \<and>
         (if p then 0 \<le> queueEnd st \<and> queueEnd st < int (length (queue st)) \<and>
                    queueEnd st' = queueEnd st + 1
          else queueEnd st' = queueEnd st)"
  using assms
  by (auto simp: visit_def classify_at_def wr_def rd_def classify_def
      split: if_splits Option.bind_splits)

definition flood_measure :: "flood \<Rightarrow> nat" where
  "flood_measure s =
     nat (2 * (int (length (queue (fst s))) - queueEnd (fst s)))
     + nat (queueEnd (fst s) - queueStart (fst s))"

lemma flood_step_measure:
  assumes "flood_step cfg img type s = Some s'" and "queueEnd (fst s) > queueStart (fst s)"
  shows "flood_measure s' < flood_measure s"
proof -
  obtain st minx maxx miny maxy where s: "s = (st, minx, maxx, miny, maxy)"
    by (cases s) auto
  from assms(1) obtain position p1 st1 p2 st2 p3 st3 p4 st4 where
    v: "visit img type (position + 1) (st\<lparr>queueStart := queueStart st + 1\<rparr>) = Some (p1, st1)"
       "visit img type (position - 1) st1 = Some (p2, st2)"
       "visit img type (position - width cfg) st2 = Some (p3, st3)"
       "visit img type (position + width cfg) st3 = Some (p4, st4)"
    and s': "fst s' = st4"
    by (auto simp: flood_step_def s Let_def split: Option.bind_splits prod.splits)
  note q = visit_queue [OF v(1)] visit_queue [OF v(2)] visit_queue [OF v(3)] visit_queue [OF v(4)]
  have "nat (2 * (int (length (queue st4)) - queueEnd st4)) + nat (queueEnd st4 - queueStart st4)
        < nat (2 * (int (length (queue st)) - queueEnd st)) + nat (queueEnd st - queueStart st)"
    using q assms(2) by (auto simp add: s split: if_splits)
  then show ?thesis
    using s' by (simp add: flood_measure_def s)
qed

function floodFill :: "config \<Rightarrow> CRawImage \<Rightarrow> int \<Rightarrow> flood \<Rightarrow> flood option" where
  "floodFill cfg img type s =
     (if queueEnd (fst s) > queueStart (fst s)
      then (case flood_step cfg img type s of
              None \<Rightarrow> None
            | Some s' \<Rightarrow> floodFill cfg img type s')
      else Some s)"
  by pat_completeness auto
termination
  by (relation "measure (\<lambda>(cfg, img, type, s). flood_measure s)")
     (auto simp: flood_step_measure)

declare floodFill.simps [simp del]

text \<open>The brightness sum of lines 163 to 168, over the queue window of the segment.\<close>

definition segment_sum :: "CRawImage \<Rightarrow> detector \<Rightarrow> int option" where
  "segment_sum img st =
     for_loop [queueOldStart st..queueEnd st - 1]
       (\<lambda>p mean. do {
          pos \<leftarrow> rd (queue st) p;
          d0 \<leftarrow> rd (data img) (pos * 3);
          d1 \<leftarrow> rd (data img) (pos * 3 + 1);
          d2 \<leftarrow> rd (data img) (pos * 3 + 2);
          Some (mean + (uint d0 + uint d1 + uint d2))
        }) 0"

text \<open>The roundness of line 157 and the test of lines 159 and 160.\<close>

definition roundness_of :: "int \<Rightarrow> int \<Rightarrow> real \<Rightarrow> int \<Rightarrow> real" where
  "roundness_of vx vy areaRatio sz = real_of_int (vx * vy) * areaRatio / real_of_int sz"

definition round_test :: "config \<Rightarrow> real \<Rightarrow> bool" where
  "round_test cfg roundness =
     (roundness - circularTolerance cfg < 1 \<and> roundness + circularTolerance cfg > 1)"

text \<open>
  Lines 144 to 172: the properties of the segment once the queue is empty. The result is
  the return value of \<open>examineSegment\<close> and the segment.
\<close>

definition segment_props ::
  "config \<Rightarrow> CRawImage \<Rightarrow> int \<Rightarrow> real \<Rightarrow> SSegment \<Rightarrow> flood \<Rightarrow> (bool \<times> SSegment) option" where
  "segment_props cfg img type areaRatio segmen s = (case s of (st, minx, maxx, miny, maxy) \<Rightarrow>
     let segmen = segmen\<lparr>s_size := queueEnd st - queueOldStart st\<rparr> in
     if s_size segmen > minSize cfg then do {
       let segmen = segmen\<lparr>s_maxx := maxx, s_maxy := maxy, s_minx := minx, s_miny := miny,
                            s_type := - type\<rparr>;
       let vx = s_maxx segmen - s_minx segmen + 1;
       let vy = s_maxy segmen - s_miny segmen + 1;
       let segmen = segmen\<lparr>s_x := real_of_int ((s_maxx segmen + s_minx segmen) sdiv 2),
                            s_y := real_of_int ((s_maxy segmen + s_miny segmen) sdiv 2)\<rparr>;
       let segmen = segmen\<lparr>s_roundness := roundness_of vx vy areaRatio (s_size segmen)\<rparr>;
       if round_test cfg (s_roundness segmen) then do {
         mean \<leftarrow> segment_sum img st;
         Some (True, segmen\<lparr>s_round := True, s_mean := mean sdiv s_size segmen\<rparr>)
       } else Some (False, segmen)
     } else Some (False, segmen))"

text \<open>
  \<open>examineSegment cfg img k ii areaRatio\<close>: the segment pointer of the source is
  \<^verbatim>\<open>&segmentArray[k]\<close>; the fields of the segment that the function does not assign keep
  the values the slot held before. The source assigns the fields one by one through the
  pointer; nothing reads the slot in between, so the model stores the segment once, at the
  end.
\<close>

definition examineSegment ::
  "config \<Rightarrow> CRawImage \<Rightarrow> int \<Rightarrow> int \<Rightarrow> real \<Rightarrow> detector \<Rightarrow> (bool \<times> detector) option" where
  "examineSegment cfg img k ii areaRatio st = do {
     segmen \<leftarrow> rd (segmentArray st) k;
     let st = st\<lparr>queueOldStart := queueStart st\<rparr>;
     type \<leftarrow> rd (buffer st) ii;
     let st = st\<lparr>numSegments := numSegments st + 1\<rparr>;
     buf \<leftarrow> wr (buffer st) ii (numSegments st);
     let st = st\<lparr>buffer := buf\<rparr>;
     if width cfg = 0 then None else do {
       let segmen = segmen\<lparr>s_x := real_of_int (ii smod width cfg),
                            s_y := real_of_int (ii sdiv width cfg)\<rparr>;
       let minx = trunc (s_x segmen); let maxx = minx;
       let miny = trunc (s_y segmen); let maxy = miny;
       let segmen = segmen\<lparr>s_valid := False, s_round := False\<rparr>;
       q \<leftarrow> wr (queue st) (queueEnd st) ii;
       let st = st\<lparr>queue := q, queueEnd := queueEnd st + 1\<rparr>;
       s \<leftarrow> floodFill cfg img type (st, minx, maxx, miny, maxy);
       (result, segmen) \<leftarrow> segment_props cfg img type areaRatio segmen s;
       segs \<leftarrow> wr (segmentArray (fst s)) k segmen;
       Some (result, (fst s)\<lparr>segmentArray := segs\<rparr>)
     }
   }"

subsection \<open>findSegment: matching and fitting a pair\<close>

text \<open>The test of lines 258 to 285 on the outer segment and the inner one.\<close>

definition pair_test :: "config \<Rightarrow> SSegment \<Rightarrow> SSegment \<Rightarrow> bool" where
  "pair_test cfg outer inner =
     ((real_of_int (s_size outer) / areasRatio cfg / real_of_int (s_size inner)
         - ratioTolerance cfg < 1
       \<and> real_of_int (s_size outer) / areasRatio cfg / real_of_int (s_size inner)
         + ratioTolerance cfg > 1)
      \<and> \<bar>s_x inner - s_x outer\<bar>
          \<le> centerDistanceToleranceAbs cfg
            + centerDistanceToleranceRatio cfg * real_of_int (s_maxx outer - s_minx outer)
      \<and> \<bar>s_y inner - s_y outer\<bar>
          \<le> centerDistanceToleranceAbs cfg
            + centerDistanceToleranceRatio cfg * real_of_int (s_maxy outer - s_miny outer))"

text \<open>The coordinate sums of lines 292 to 296 and 301 to 305 over \<open>queue[a..b)\<close>.\<close>

definition coord_sums ::
  "int \<Rightarrow> detector \<Rightarrow> int \<Rightarrow> int \<Rightarrow> real \<times> real \<Rightarrow> (real \<times> real) option" where
  "coord_sums w st a b acc =
     for_loop [a..b - 1]
       (\<lambda>p (sx, sy). do {
          pos \<leftarrow> rd (queue st) p;
          Some (sx + real_of_int (pos smod w), sy + real_of_int (pos sdiv w))
        }) acc"

text \<open>The second moments of lines 308 to 315 about \<open>(sx, sy)\<close>.\<close>

definition moment_sums ::
  "int \<Rightarrow> detector \<Rightarrow> real \<Rightarrow> real \<Rightarrow> (real \<times> real \<times> real) option" where
  "moment_sums w st sx sy =
     for_loop [0..queueEnd st - 1]
       (\<lambda>p (cm0, cm1, cm2). do {
          pos \<leftarrow> rd (queue st) p;
          let tx = real_of_int (pos smod w) - sx;
          let ty = real_of_int (pos sdiv w) - sy;
          Some (cm0 + tx * tx, cm1 + tx * ty, cm2 + ty * ty)
        }) (0, 0, 0)"

text \<open>The two eigenvalues of lines 319 to 336.\<close>

definition eigen_f0 :: "real \<Rightarrow> real \<Rightarrow> real \<Rightarrow> real" where
  "eigen_f0 fm0 fm1 fm2 =
     ((fm0 + fm2) + sqrt ((fm0 + fm2) * (fm0 + fm2) - 4 * (fm0 * fm2 - fm1 * fm1))) / 2"

definition eigen_f1 :: "real \<Rightarrow> real \<Rightarrow> real \<Rightarrow> real" where
  "eigen_f1 fm0 fm1 fm2 =
     ((fm0 + fm2) - sqrt ((fm0 + fm2) * (fm0 + fm2) - 4 * (fm0 * fm2 - fm1 * fm1))) / 2"

text \<open>
  The pixel leakage correction of lines 386 to 404: from the squared diameter ratio \<open>r\<close>,
  the two raw outer semi-axes and the share \<open>ratio\<close> of the inner pixels, the term \<open>t\<close> and the
  four corrected values \<open>(m0i, m1i, m0o, m1o)\<close>.
\<close>

definition leak_t :: "real \<Rightarrow> real \<Rightarrow> real \<Rightarrow> real \<Rightarrow> real" where
  "leak_t r m0o m1o ratio =
     (let m0i = sqrt ratio * m0o;
          m1i = sqrt ratio * m1o;
          a = 1 - r;
          b = - (m0i + m1i) - (m0o + m1o) * r;
          c = (m0i * m1i) - (m0o * m1o) * r
      in (- b - sqrt (b * b - 4 * a * c)) / (2 * a))"

definition leak_corrected :: "real \<Rightarrow> real \<Rightarrow> real \<Rightarrow> real \<Rightarrow> real \<times> real \<times> real \<times> real" where
  "leak_corrected r m0o m1o ratio =
     (let m0i = sqrt ratio * m0o;
          m1i = sqrt ratio * m1o;
          t = leak_t r m0o m1o ratio
      in (m0i - t, m1i - t, m0o + t, m1o + t))"

text \<open>
  Lines 386 to 407 as a whole: from the diameter ratio, the two eigenvalues and the two
  pixel counts, the values stored in the fields \<open>m0\<close> and \<open>m1\<close> of the inner segment.
\<close>

definition corrected_axes :: "real \<Rightarrow> real \<Rightarrow> real \<Rightarrow> int \<Rightarrow> int \<Rightarrow> real \<times> real" where
  "corrected_axes dr f0 f1 size_outer size_inner =
     (let r = dr * dr;
          ratio = real_of_int size_inner / real_of_int (size_outer + size_inner);
          t = leak_t r (sqrt f0) (sqrt f1) ratio
      in (sqrt f0 + t, sqrt f1 + t))"

text \<open>The circularity of lines 352 to 355 and the test of lines 359 to 361.\<close>

definition circularity_of :: "real \<Rightarrow> real \<Rightarrow> int \<Rightarrow> real" where
  "circularity_of m0 m1 n = pi * 4 * m0 * m1 / real_of_int n"

definition circularity_test :: "config \<Rightarrow> real \<Rightarrow> bool" where
  "circularity_test cfg circularity =
     (circularity - 1 < circularityTolerance cfg \<and> circularity - 1 > - circularityTolerance cfg)"

text \<open>\<^verbatim>\<open>atan2\<close> of the C library.\<close>

definition atan2 :: "real \<Rightarrow> real \<Rightarrow> real" where
  "atan2 b a =
     (if a > 0 then arctan (b / a)
      else if a < 0 \<and> b \<ge> 0 then arctan (b / a) + pi
      else if a < 0 then arctan (b / a) - pi
      else if b > 0 then pi / 2
      else if b < 0 then - pi / 2
      else 0)"

text \<open>
  Lines 286 to 428 on the two segments: the fit of the pair \<open>outer\<close>, \<open>inner\<close> that passed
  \<open>pair_test\<close>, over the window \<open>queue[0..queueEnd)\<close> of which \<open>queue[queueOldStart..queueEnd)\<close>
  are the pixels of the inner segment; \<open>w\<close> is \<^verbatim>\<open>image->getwidth()\<close>. The result is the
  two segments as the source leaves them and whether the circularity test passed.
\<close>

definition ellipse_fit ::
  "config \<Rightarrow> int \<Rightarrow> detector \<Rightarrow> SSegment \<Rightarrow> SSegment \<Rightarrow> (SSegment \<times> SSegment \<times> bool) option" where
  "ellipse_fit cfg w st outer inner = do {
     (sx, sy) \<leftarrow> coord_sums w st (queueOldStart st) (queueEnd st) (0, 0);
     let outer = outer\<lparr>s_x := sx / real_of_int (queueEnd st - queueOldStart st),
                        s_y := sy / real_of_int (queueEnd st - queueOldStart st)\<rparr>;
     (sx, sy) \<leftarrow> coord_sums w st 0 (queueOldStart st) (sx, sy);
     let sx = sx / real_of_int (queueEnd st);
     let sy = sy / real_of_int (queueEnd st);
     (cm0, cm1, cm2) \<leftarrow> moment_sums w st sx sy;
     let fm0 = cm0 / real_of_int (queueEnd st);
     let fm1 = cm1 / real_of_int (queueEnd st);
     let fm2 = cm2 / real_of_int (queueEnd st);
     let f0 = eigen_f0 fm0 fm1 fm2;
     let f1 = eigen_f1 fm0 fm1 fm2;
     let inner = inner\<lparr>s_m0 := sqrt f0, s_m1 := sqrt f1,
                        s_v0 := - fm1 / sqrt (fm1 * fm1 + (fm0 - f0) * (fm0 - f0)),
                        s_v1 := (fm0 - f0) / sqrt (fm1 * fm1 + (fm0 - f0) * (fm0 - f0)),
                        s_bwRatio := real_of_int (s_size outer) / real_of_int (s_size inner)\<rparr>;
     let circularity = circularity_of (s_m0 inner) (s_m1 inner) (queueEnd st);
     if circularity_test cfg circularity then do {
       let outer = outer\<lparr>s_valid := True\<rparr>;
       let inner = inner\<lparr>s_valid := True\<rparr>;
       let (m0c, m1c) = corrected_axes (diameterRatio cfg) f0 f1 (s_size outer) (s_size inner);
       let inner = inner\<lparr>s_m0 := m0c, s_m1 := m1c,
                          s_maxx := s_maxx outer, s_maxy := s_maxy outer,
                          s_minx := s_minx outer, s_miny := s_miny outer,
                          s_x := sx, s_y := sy,
                          s_size := s_size outer + s_size inner,
                          s_horizontal := sx - s_x outer,
                          s_angle := atan2 (sy - s_y outer) (sx - s_x outer)\<rparr>;
       let outer = outer\<lparr>s_x := sx, s_y := sy\<rparr>;
       Some (outer, inner, True)
     } else Some (outer, inner, False)
   }"

text \<open>
  Lines 286 to 428 on the detector: the two segments are stored, the scan index is set to
  \<open>start - 1\<close> when tracking (lines 347 and 348), and the threshold becomes the mean of the
  two brightness means when the circularity test passed (lines 365 to 367, before the
  leakage correction, which does not touch the means). The second component is the scan
  index \<open>ii\<close>.
\<close>

definition fit_pair ::
  "config \<Rightarrow> CRawImage \<Rightarrow> int \<Rightarrow> detector \<times> int \<Rightarrow> (detector \<times> int) option" where
  "fit_pair cfg img start s = (case s of (st, ii) \<Rightarrow> do {
     outer \<leftarrow> rd (segmentArray st) (numSegments st - 2);
     inner \<leftarrow> rd (segmentArray st) (numSegments st - 1);
     if getwidth img = 0 then None else do {
       (outer', inner', ok) \<leftarrow> ellipse_fit cfg (getwidth img) st outer inner;
       let ii = (if track cfg then start - 1 else ii);
       let st = (if ok then st\<lparr>threshold := (s_mean outer + s_mean inner) sdiv 2\<rparr> else st);
       segs \<leftarrow> wr (segmentArray st) (numSegments st - 2) outer';
       segs \<leftarrow> wr segs (numSegments st - 1) inner';
       Some (st\<lparr>segmentArray := segs\<rparr>, ii)
     }
   })"

definition match_pair ::
  "config \<Rightarrow> CRawImage \<Rightarrow> int \<Rightarrow> detector \<times> int \<Rightarrow> (detector \<times> int) option" where
  "match_pair cfg img start s = (case s of (st, ii) \<Rightarrow> do {
     outer \<leftarrow> rd (segmentArray st) (numSegments st - 2);
     inner \<leftarrow> rd (segmentArray st) (numSegments st - 1);
     if pair_test cfg outer inner then fit_pair cfg img start (st, ii) else Some (st, ii)
   })"

subsection \<open>findSegment: the raster scan\<close>

text \<open>Lines 225 to 230: a pixel that is still 0 and darker than the threshold becomes -2.\<close>

definition mark_dark :: "CRawImage \<Rightarrow> int \<Rightarrow> detector \<Rightarrow> detector option" where
  "mark_dark img ii st = do {
     b \<leftarrow> rd (buffer st) ii;
     if b = 0 then do {
       sm \<leftarrow> pixel_sum img ii;
       if sm < threshold st then do {
         buf \<leftarrow> wr (buffer st) ii (- 2);
         Some (st\<lparr>buffer := buf\<rparr>)
       } else Some st
     } else Some st
   }"

text \<open>
  Lines 238 to 431: the outer segment was accepted; the pixel at its centre is classified
  and, if it is light, examined as the inner segment.
\<close>

definition examine_inner ::
  "config \<Rightarrow> CRawImage \<Rightarrow> int \<Rightarrow> detector \<times> int \<Rightarrow> (detector \<times> int) option" where
  "examine_inner cfg img start s = (case s of (st, ii) \<Rightarrow> do {
     outer \<leftarrow> rd (segmentArray st) (numSegments st - 1);
     let pos = trunc (s_y outer * real_of_int (getwidth img) + s_x outer);
     st \<leftarrow> classify_at img pos st;
     b \<leftarrow> rd (buffer st) pos;
     if b = - 1 \<and> numSegments st < MAX_SEGMENTS cfg then do {
       (r, st) \<leftarrow> examineSegment cfg img (numSegments st) pos (innerAreaRatio cfg) st;
       if r then match_pair cfg img start (st, ii) else Some (st, ii)
     } else Some (st, ii)
   })"

text \<open>Lines 232 to 432: a new segment starts at \<open>ii\<close>.\<close>

definition examine_outer ::
  "config \<Rightarrow> CRawImage \<Rightarrow> int \<Rightarrow> detector \<times> int \<Rightarrow> (detector \<times> int) option" where
  "examine_outer cfg img start s = (case s of (st, ii) \<Rightarrow> do {
     let st = st\<lparr>queueEnd := 0, queueStart := 0\<rparr>;
     (r, st) \<leftarrow> examineSegment cfg img (numSegments st) ii (outerAreaRatio cfg) st;
     if r then examine_inner cfg img start (st, ii) else Some (st, ii)
   })"

text \<open>
  The body of the \<^verbatim>\<open>while (cont)\<close> loop up to the increment of \<open>ii\<close> (lines 225 to 433).
\<close>

definition scan_body ::
  "config \<Rightarrow> CRawImage \<Rightarrow> int \<Rightarrow> detector \<times> int \<Rightarrow> (detector \<times> int) option" where
  "scan_body cfg img start s = (case s of (st, ii) \<Rightarrow> do {
     st \<leftarrow> mark_dark img ii st;
     b \<leftarrow> rd (buffer st) ii;
     if b = - 2 \<and> numSegments st < MAX_SEGMENTS cfg
     then examine_outer cfg img start (st, ii)
     else Some (st, ii)
   })"

lemma fit_pair_ii:
  "fit_pair cfg img start (st, ii) = Some (st', ii') \<Longrightarrow>
     ii' = (if track cfg then start - 1 else ii)"
  unfolding fit_pair_def Let_def
  by (simp split: Option.bind_splits prod.splits if_splits)

lemma match_pair_ii:
  "match_pair cfg img start (st, ii) = Some (st', ii') \<Longrightarrow> ii' = ii \<or> ii' = start - 1"
  unfolding match_pair_def
  by (auto split: Option.bind_splits if_splits dest: fit_pair_ii)

lemma examine_inner_ii:
  "examine_inner cfg img start (st, ii) = Some (st', ii') \<Longrightarrow> ii' = ii \<or> ii' = start - 1"
  unfolding examine_inner_def Let_def
  by (auto split: Option.bind_splits prod.splits if_splits dest: match_pair_ii)

lemma examine_outer_ii:
  "examine_outer cfg img start (st, ii) = Some (st', ii') \<Longrightarrow> ii' = ii \<or> ii' = start - 1"
  unfolding examine_outer_def Let_def
  by (auto split: Option.bind_splits prod.splits if_splits dest: examine_inner_ii)

lemma scan_body_ii:
  "scan_body cfg img start (st, ii) = Some (st', ii') \<Longrightarrow> ii' = ii \<or> ii' = start - 1"
  unfolding scan_body_def
  by (auto split: Option.bind_splits if_splits dest: examine_outer_ii)

text \<open>
  The loop \<^verbatim>\<open>while (cont)\<close> of \<open>findSegment\<close> with its tail
  \<^verbatim>\<open>ii++; if (ii >= len) ii = 0; cont = (ii != start);\<close>. The label buffer has \<open>len\<close> cells
  (line 37), and the first thing each round does is to read \<open>buffer[ii]\<close>, the first round at
  \<open>ii = start\<close>: an index outside \<open>[0, len)\<close> is outside the allocation.
\<close>

lemma mod_neg_range: "- L \<le> x \<Longrightarrow> x < 0 \<Longrightarrow> x mod L = x + (L::int)"
proof -
  assume a: "- L \<le> x" "x < 0"
  have "(x + L) mod L = x + L" using a by (intro mod_pos_pos_trivial) auto
  then show ?thesis by simp
qed

lemma scan_measure_arith:
  fixes ii start L :: int
  assumes "0 \<le> ii" "ii < L" "0 \<le> start" "start < L"
    and "n = (if ii + 1 \<ge> L then 0 else ii + 1)" "n \<noteq> start"
  shows "(start - n - 1) mod L < (start - ii - 1) mod L"
proof (cases "ii < start")
  case True
  then have "(start - ii - 1) mod L = start - ii - 1" "(start - n - 1) mod L = start - n - 1" "n = ii + 1"
    using assms by (auto intro!: mod_pos_pos_trivial)
  then show ?thesis by simp
next
  case False
  then have 1: "(start - ii - 1) mod L = start - ii - 1 + L"
    using assms by (intro mod_neg_range) auto
  show ?thesis
  proof (cases "ii + 1 \<ge> L")
    case True
    then have "n = 0" using assms by simp
    then have "(start - n - 1) mod L = start - 1"
      using assms by (auto intro!: mod_pos_pos_trivial)
    then show ?thesis using 1 assms by simp
  next
    case F2: False
    then have n: "n = ii + 1" using assms by simp
    have "(start - ii - 2) mod L = start - ii - 2 + L"
      using assms False F2 by (intro mod_neg_range) auto
    then have "(start - n - 1) mod L = start - ii - 2 + L"
      unfolding n by (simp add: algebra_simps)
    then show ?thesis unfolding 1 by simp
  qed
qed
definition scan_next :: "config \<Rightarrow> int \<Rightarrow> int" where
  "scan_next cfg ii = (let ii = ii + 1 in if ii \<ge> len cfg then 0 else ii)"

function scan :: "config \<Rightarrow> CRawImage \<Rightarrow> int \<Rightarrow> detector \<times> int \<Rightarrow> detector option" where
  "scan cfg img start s =
     (if \<not> (0 \<le> snd s \<and> snd s < len cfg \<and> 0 \<le> start \<and> start < len cfg) then None
      else (case scan_body cfg img start s of
              None \<Rightarrow> None
            | Some s' \<Rightarrow>
                if scan_next cfg (snd s') \<noteq> start
                then scan cfg img start (fst s', scan_next cfg (snd s'))
                else Some (fst s')))"
  by pat_completeness auto
termination
proof (relation "measure (\<lambda>(cfg, img, start, s). nat ((start - snd s - 1) mod len cfg))",
       goal_cases)
  case 1
  show ?case by simp
next
  case (2 cfg img start s s')
  obtain st ii where s: "s = (st, ii)" by (cases s)
  obtain st' ii' where s': "s' = (st', ii')" by (cases s')
  from 2 have r: "0 \<le> ii" "ii < len cfg" "0 \<le> start" "start < len cfg"
    by (auto simp: s)
  from 2(2) have "ii' = ii \<or> ii' = start - 1"
    using scan_body_ii [of cfg img start st ii st' ii'] by (simp add: s s')
  moreover have "ii' \<noteq> start - 1"
    using 2(3) r by (auto simp: s' scan_next_def)
  ultimately have ii': "ii' = ii" by simp
  have "(start - scan_next cfg ii - 1) mod len cfg < (start - ii - 1) mod len cfg"
    using r 2(3) by (intro scan_measure_arith) (auto simp: scan_next_def Let_def s' ii')
  moreover have "0 \<le> (start - scan_next cfg ii - 1) mod len cfg" using r by simp
  ultimately show ?case
    by (simp add: s s' ii')
qed

declare scan.simps [simp del]

subsection \<open>findSegment: the end of the frame\<close>

text \<open>Lines 439 to 456: the last valid segment becomes the result.\<close>

definition select_result :: "config \<Rightarrow> detector \<Rightarrow> SSegment \<Rightarrow> SSegment option" where
  "select_result cfg st result =
     for_loop [0..numSegments st - 1]
       (\<lambda>i result. do {
          seg \<leftarrow> rd (segmentArray st) i;
          Some (if s_size seg > minSize cfg \<and> (s_valid seg \<or> debug cfg)
                then (if s_valid seg then seg else result)
                else result)
        }) result"

text \<open>Lines 457 to 460.\<close>

definition track_ok :: "detector \<Rightarrow> bool option" where
  "track_ok st =
     (if numSegments st = 2 then do {
        s0 \<leftarrow> rd (segmentArray st) 0;
        if s_valid s0 then do { s1 \<leftarrow> rd (segmentArray st) 1; Some (s_valid s1) }
        else Some False
      } else Some False)"

text \<open>Lines 462 to 479: the failure counter and the threshold.\<close>

definition failure_update :: "config \<Rightarrow> SSegment \<Rightarrow> detector \<Rightarrow> detector" where
  "failure_update cfg result st =
     (if s_valid result then
        st\<lparr>lastThreshold := threshold st, drawAll := False, numFailed := 0\<rparr>
      else if numFailed st < maxFailed cfg then
        (let old = numFailed st;
             st = st\<lparr>numFailed := numFailed st + 1\<rparr>;
             st = (if old smod 2 = 0 then snd (changeThreshold st)
                   else st\<lparr>threshold := lastThreshold st\<rparr>)
         in if debug cfg then st\<lparr>drawAll := True\<rparr> else st)
      else
        (let st = st\<lparr>numFailed := numFailed st + 1\<rparr>;
             (r, st) = changeThreshold st;
             st = (if r = False then st\<lparr>numFailed := 0\<rparr> else st)
         in if debug cfg then st\<lparr>drawAll := True\<rparr> else st))"

text \<open>Lines 481 to 486: the pixels of the segment examined last are set to black.\<close>

definition blank_last :: "detector \<Rightarrow> 8 word list \<Rightarrow> 8 word list option" where
  "blank_last st d =
     for_loop [queueOldStart st..queueEnd st - 1]
       (\<lambda>p d. do {
          pos \<leftarrow> rd (queue st) p;
          d \<leftarrow> wr d (3 * pos + 0) 0;
          d \<leftarrow> wr d (3 * pos + 1) 0;
          wr d (3 * pos + 2) 0
        }) d"

text \<open>Lines 488 to 499.\<close>

definition paint :: "int \<Rightarrow> int \<Rightarrow> 8 word list \<Rightarrow> 8 word list option" where
  "paint i j d = do {
     d \<leftarrow> wr d (i * 3 + j smod 3) 0;
     d \<leftarrow> wr d (i * 3 + (j + 1) smod 3) 255;
     wr d (i * 3 + (j + 2) smod 3) 255
   }"

definition draw_segments :: "config \<Rightarrow> detector \<Rightarrow> 8 word list \<Rightarrow> 8 word list option" where
  "draw_segments cfg st d =
     (if draw cfg then
        for_loop [0..len cfg - 1]
          (\<lambda>i d. do {
             j \<leftarrow> rd (buffer st) i;
             if j > 0 then
               (if drawAll st then paint i j d
                else do {
                  seg \<leftarrow> rd (segmentArray st) (j - 1);
                  if s_valid seg then paint i j d else Some d
                })
             else Some d
           }) d
      else Some d)"

text \<open>
  \<open>findSegment cfg uninit img init st\<close>. The local \<^verbatim>\<open>SSegment result\<close> is declared without
  an initialiser and only four of its fields are assigned; \<open>uninit\<close> stands for what the
  others hold. The function returns the result, the frame as it leaves it, and the detector.
\<close>

definition findSegment ::
  "config \<Rightarrow> SSegment \<Rightarrow> CRawImage \<Rightarrow> SSegment \<Rightarrow> detector
     \<Rightarrow> (SSegment \<times> CRawImage \<times> detector) option" where
  "findSegment cfg uninit img init st = do {
     let result = uninit\<lparr>s_x := 0, s_y := 0, s_round := False, s_valid := False\<rparr>;
     let st = st\<lparr>numSegments := 0\<rparr>;
     let ii = (if s_valid init \<and> track cfg
               then trunc (real_of_int (trunc (s_y init) * getwidth img) + s_x init)
               else 0);
     let start = ii;
     st \<leftarrow> scan cfg img start (st, ii);
     result \<leftarrow> select_result cfg st result;
     ok \<leftarrow> track_ok st;
     let st = st\<lparr>lastTrackOK := ok\<rparr>;
     let st = failure_update cfg result st;
     d \<leftarrow> blank_last st (data img);
     d \<leftarrow> draw_segments cfg st d;
     st \<leftarrow> bufferCleanup cfg result st;
     Some (result, img\<lparr>data := d\<rparr>, st)
   }"

subsection \<open>The constructor\<close>

text \<open>
  \<open>CCircleDetect_new wi he diamRatio maxSegments dummy u\<close>: lines 10 to 49 for the
  instance that allocates the two arrays. The constructor leaves \<open>segmentArray\<close>, the queue
  indices, \<open>numSegments\<close> and \<open>lastThreshold\<close> unassigned, the two arrays come from
  \<^verbatim>\<open>malloc\<close> with \<open>len\<close> cells each, and the local \<open>dummy\<close> is not initialised: \<open>u\<close> and
  \<open>dummy\<close> give what they hold.
\<close>

definition CCircleDetect_config :: "int \<Rightarrow> int \<Rightarrow> real \<Rightarrow> int \<Rightarrow> config" where
  "CCircleDetect_config wi he diamRatio maxSegments =
     (let areaRatioInner_Outer = diamRatio * diamRatio in
      \<lparr>width = wi, height = he, len = wi * he, MAX_SEGMENTS = maxSegments,
       minSize = 10, maxFailed = 0, diameterRatio = diamRatio,
       outerAreaRatio = pi * (1 - areaRatioInner_Outer) / 4,
       innerAreaRatio = pi / 4,
       areasRatio = (1 - areaRatioInner_Outer) / areaRatioInner_Outer,
       circularTolerance = 3 / 10, ratioTolerance = 4 / 10, circularityTolerance = 1 / 10,
       centerDistanceToleranceRatio = 11 / 10, centerDistanceToleranceAbs = 5,
       track = True, debug = False, draw = False\<rparr>)"

definition CCircleDetect_new ::
  "int \<Rightarrow> int \<Rightarrow> real \<Rightarrow> int \<Rightarrow> SSegment \<Rightarrow> detector \<Rightarrow> (config \<times> detector) option" where
  "CCircleDetect_new wi he diamRatio maxSegments dummy u =
     (let cfg = CCircleDetect_config wi he diamRatio maxSegments;
          st = u\<lparr>lastTrackOK := False, drawAll := False,
                 threshold := (3 * 256) sdiv 2, numFailed := maxFailed cfg\<rparr>
      in if length (buffer st) = nat (len cfg) \<and> length (queue st) = nat (len cfg)
            \<and> length (segmentArray st) = nat maxSegments
         then do { st \<leftarrow> bufferCleanup cfg dummy st; Some (cfg, st) }
         else None)"

subsection \<open>Concrete inputs\<close>

text \<open>A segment and a detector with every field zero, to build concrete inputs from.\<close>

definition seg0 :: SSegment where
  "seg0 = \<lparr>s_x = 0, s_y = 0, s_angle = 0, s_horizontal = 0, s_size = 0, s_maxy = 0, s_maxx = 0,
     s_miny = 0, s_minx = 0, s_mean = 0, s_type = 0, s_roundness = 0, s_bwRatio = 0,
     s_round = False, s_valid = False, s_m0 = 0, s_m1 = 0, s_v0 = 0, s_v1 = 0\<rparr>"

definition det0 :: detector where
  "det0 = \<lparr>buffer = [], queue = [], queueStart = 0, queueEnd = 0, queueOldStart = 0,
     numSegments = 0, segmentArray = [], threshold = 0, lastThreshold = 0, numFailed = 0,
     lastTrackOK = False, drawAll = False\<rparr>"

subsection \<open>Sequences of frames\<close>

text \<open>A sequence of frames, each with the segment the caller passes as \<open>init\<close>.\<close>

fun run_frames ::
  "config \<Rightarrow> SSegment \<Rightarrow> (CRawImage \<times> SSegment) list \<Rightarrow> detector \<Rightarrow> detector option" where
  "run_frames cfg uninit [] st = Some st"
| "run_frames cfg uninit (f # fs) st =
     (case findSegment cfg uninit (fst f) (snd f) st of
        None \<Rightarrow> None
      | Some r \<Rightarrow> run_frames cfg uninit fs (snd (snd r)))"


text \<open>A frame of one pixel, and a detector for it that has failed 15 times.\<close>

definition cfg_tiny :: config where
  "cfg_tiny = CCircleDetect_config 1 1 (1 / 2) 2"

definition img_tiny :: CRawImage where
  "img_tiny = \<lparr>data = [0, 0, 0], getwidth = 1\<rparr>"

definition det_tiny :: detector where
  "det_tiny = det0\<lparr>buffer := [- 1000], queue := [0], segmentArray := [seg0, seg0],
      numFailed := 15\<rparr>"

text \<open>
  A label buffer of 6 by 6 cells that holds 7 everywhere, in a detector whose last track
  succeeded, and a valid segment with the bounding box \<open>x = 3\<close>, \<open>y = 2\<close>.
\<close>

definition cfg_w :: config where
  "cfg_w = CCircleDetect_config 6 6 (1 / 2) 2"

definition det_w :: detector where
  "det_w = det0\<lparr>buffer := replicate 36 7, lastTrackOK := True\<rparr>"

definition seg_w :: SSegment where
  "seg_w = seg0\<lparr>s_valid := True, s_minx := 3, s_maxx := 3, s_miny := 2, s_maxy := 2\<rparr>"

text \<open>
  A frame of 8 by 10 pixels: a black rectangle of 6 by 8 pixels inside a one-pixel border,
  and inside it a white rectangle of 3 by 4 pixels (\<open>x\<close> from 2 to 4, \<open>y\<close> from 3 to 6), so that
  the sides are as 1 to 2 and the areas as 1 to 4.
\<close>

definition img_d :: CRawImage where
  "img_d = \<lparr>data = [0, 0, 0, 0, 0, 0, 0, 0, 0, 0, 0, 0, 0, 0, 0, 0, 0, 0, 0, 0, 0, 0, 0, 0,
       0, 0, 0, 0, 0, 0, 0, 0, 0, 0, 0, 0, 0, 0, 0, 0, 0, 0, 0, 0, 0, 0, 0, 0,
       0, 0, 0, 0, 0, 0, 0, 0, 0, 0, 0, 0, 0, 0, 0, 0, 0, 0, 0, 0, 0, 0, 0, 0,
       0, 0, 0, 0, 0, 0, 255, 255, 255, 255, 255, 255, 255, 255, 255, 0, 0, 0, 0, 0, 0, 0, 0, 0,
       0, 0, 0, 0, 0, 0, 255, 255, 255, 255, 255, 255, 255, 255, 255, 0, 0, 0, 0, 0, 0, 0, 0, 0,
       0, 0, 0, 0, 0, 0, 255, 255, 255, 255, 255, 255, 255, 255, 255, 0, 0, 0, 0, 0, 0, 0, 0, 0,
       0, 0, 0, 0, 0, 0, 255, 255, 255, 255, 255, 255, 255, 255, 255, 0, 0, 0, 0, 0, 0, 0, 0, 0,
       0, 0, 0, 0, 0, 0, 0, 0, 0, 0, 0, 0, 0, 0, 0, 0, 0, 0, 0, 0, 0, 0, 0, 0,
       0, 0, 0, 0, 0, 0, 0, 0, 0, 0, 0, 0, 0, 0, 0, 0, 0, 0, 0, 0, 0, 0, 0, 0,
       0, 0, 0, 0, 0, 0, 0, 0, 0, 0, 0, 0, 0, 0, 0, 0, 0, 0, 0, 0, 0, 0, 0, 0], getwidth = 8\<rparr>"

text \<open>The same frame with every pixel black, and with the pixels of the two segments painted.\<close>

definition img_z :: CRawImage where
  "img_z = \<lparr>data = [0, 0, 0, 0, 0, 0, 0, 0, 0, 0, 0, 0, 0, 0, 0, 0, 0, 0, 0, 0, 0, 0, 0, 0,
       0, 0, 0, 0, 0, 0, 0, 0, 0, 0, 0, 0, 0, 0, 0, 0, 0, 0, 0, 0, 0, 0, 0, 0,
       0, 0, 0, 0, 0, 0, 0, 0, 0, 0, 0, 0, 0, 0, 0, 0, 0, 0, 0, 0, 0, 0, 0, 0,
       0, 0, 0, 0, 0, 0, 0, 0, 0, 0, 0, 0, 0, 0, 0, 0, 0, 0, 0, 0, 0, 0, 0, 0,
       0, 0, 0, 0, 0, 0, 0, 0, 0, 0, 0, 0, 0, 0, 0, 0, 0, 0, 0, 0, 0, 0, 0, 0,
       0, 0, 0, 0, 0, 0, 0, 0, 0, 0, 0, 0, 0, 0, 0, 0, 0, 0, 0, 0, 0, 0, 0, 0,
       0, 0, 0, 0, 0, 0, 0, 0, 0, 0, 0, 0, 0, 0, 0, 0, 0, 0, 0, 0, 0, 0, 0, 0,
       0, 0, 0, 0, 0, 0, 0, 0, 0, 0, 0, 0, 0, 0, 0, 0, 0, 0, 0, 0, 0, 0, 0, 0,
       0, 0, 0, 0, 0, 0, 0, 0, 0, 0, 0, 0, 0, 0, 0, 0, 0, 0, 0, 0, 0, 0, 0, 0,
       0, 0, 0, 0, 0, 0, 0, 0, 0, 0, 0, 0, 0, 0, 0, 0, 0, 0, 0, 0, 0, 0, 0, 0], getwidth = 8\<rparr>"

definition img_p :: CRawImage where
  "img_p = \<lparr>data = [0, 0, 0, 0, 0, 0, 0, 0, 0, 0, 0, 0, 0, 0, 0, 0, 0, 0, 0, 0, 0, 0, 0, 0,
       0, 0, 0, 255, 0, 255, 255, 0, 255, 255, 0, 255, 255, 0, 255, 255, 0, 255, 255, 0, 255, 0, 0, 0,
       0, 0, 0, 255, 0, 255, 255, 0, 255, 255, 0, 255, 255, 0, 255, 255, 0, 255, 255, 0, 255, 0, 0, 0,
       0, 0, 0, 255, 0, 255, 255, 255, 0, 255, 255, 0, 255, 255, 0, 255, 0, 255, 255, 0, 255, 0, 0, 0,
       0, 0, 0, 255, 0, 255, 255, 255, 0, 255, 255, 0, 255, 255, 0, 255, 0, 255, 255, 0, 255, 0, 0, 0,
       0, 0, 0, 255, 0, 255, 255, 255, 0, 255, 255, 0, 255, 255, 0, 255, 0, 255, 255, 0, 255, 0, 0, 0,
       0, 0, 0, 255, 0, 255, 255, 255, 0, 255, 255, 0, 255, 255, 0, 255, 0, 255, 255, 0, 255, 0, 0, 0,
       0, 0, 0, 255, 0, 255, 255, 0, 255, 255, 0, 255, 255, 0, 255, 255, 0, 255, 255, 0, 255, 0, 0, 0,
       0, 0, 0, 255, 0, 255, 255, 0, 255, 255, 0, 255, 255, 0, 255, 255, 0, 255, 255, 0, 255, 0, 0, 0,
       0, 0, 0, 0, 0, 0, 0, 0, 0, 0, 0, 0, 0, 0, 0, 0, 0, 0, 0, 0, 0, 0, 0, 0], getwidth = 8\<rparr>"

text \<open>The label buffer after a full reset, and a queue of zeros.\<close>

definition buf_d :: "int list" where
  "buf_d = [- 1000, - 1000, - 1000, - 1000, - 1000, - 1000, - 1000, - 1000,
     - 1000, 0, 0, 0, 0, 0, 0, - 1000,
     - 1000, 0, 0, 0, 0, 0, 0, - 1000,
     - 1000, 0, 0, 0, 0, 0, 0, - 1000,
     - 1000, 0, 0, 0, 0, 0, 0, - 1000,
     - 1000, 0, 0, 0, 0, 0, 0, - 1000,
     - 1000, 0, 0, 0, 0, 0, 0, - 1000,
     - 1000, 0, 0, 0, 0, 0, 0, - 1000,
     - 1000, 0, 0, 0, 0, 0, 0, - 1000,
     - 1000, - 1000, - 1000, - 1000, - 1000, - 1000, - 1000, - 1000]"

definition queue_d :: "int list" where
  "queue_d = [0, 0, 0, 0, 0, 0, 0, 0, 0, 0, 0, 0, 0, 0, 0, 0, 0, 0, 0, 0,
     0, 0, 0, 0, 0, 0, 0, 0, 0, 0, 0, 0, 0, 0, 0, 0, 0, 0, 0, 0,
     0, 0, 0, 0, 0, 0, 0, 0, 0, 0, 0, 0, 0, 0, 0, 0, 0, 0, 0, 0,
     0, 0, 0, 0, 0, 0, 0, 0, 0, 0, 0, 0, 0, 0, 0, 0, 0, 0, 0, 0]"

text \<open>
  The detector as the constructor leaves it for this size, and the parameters of the
  constructor with tracking switched off; \<open>cfg_e\<close> is \<open>cfg_d\<close> without the two area ratios, which
  are multiples of \<open>pi\<close>.
\<close>

definition det_d :: detector where
  "det_d = \<lparr>buffer = buf_d, queue = queue_d, queueStart = 0, queueEnd = 0, queueOldStart = 0,
     numSegments = 0, segmentArray = [seg0, seg0, seg0, seg0], threshold = 384,
     lastThreshold = 0, numFailed = 0, lastTrackOK = False, drawAll = False\<rparr>"

definition cfg_d :: config where
  "cfg_d = (CCircleDetect_config 8 10 (1 / 2) 4)\<lparr>track := False\<rparr>"

definition cfg_e :: config where
  "cfg_e = \<lparr>width = 8, height = 10, len = 80, MAX_SEGMENTS = 4, minSize = 10, maxFailed = 0,
     diameterRatio = 1 / 2, outerAreaRatio = 0, innerAreaRatio = 0, areasRatio = 3,
     circularTolerance = 3 / 10, ratioTolerance = 4 / 10, circularityTolerance = 1 / 10,
     centerDistanceToleranceRatio = 11 / 10, centerDistanceToleranceAbs = 5,
     track = False, debug = False, draw = False\<rparr>"

text \<open>The label buffer and the queue when the flood fill of the outer segment starts at the pixel 9, and when it ends.\<close>

definition buf_oa :: "int list" where
  "buf_oa = [- 1000, - 1000, - 1000, - 1000, - 1000, - 1000, - 1000, - 1000,
     - 1000, 1, 0, 0, 0, 0, 0, - 1000,
     - 1000, 0, 0, 0, 0, 0, 0, - 1000,
     - 1000, 0, 0, 0, 0, 0, 0, - 1000,
     - 1000, 0, 0, 0, 0, 0, 0, - 1000,
     - 1000, 0, 0, 0, 0, 0, 0, - 1000,
     - 1000, 0, 0, 0, 0, 0, 0, - 1000,
     - 1000, 0, 0, 0, 0, 0, 0, - 1000,
     - 1000, 0, 0, 0, 0, 0, 0, - 1000,
     - 1000, - 1000, - 1000, - 1000, - 1000, - 1000, - 1000, - 1000]"

definition queue_oa :: "int list" where
  "queue_oa = [9, 0, 0, 0, 0, 0, 0, 0, 0, 0, 0, 0, 0, 0, 0, 0, 0, 0, 0, 0,
     0, 0, 0, 0, 0, 0, 0, 0, 0, 0, 0, 0, 0, 0, 0, 0, 0, 0, 0, 0,
     0, 0, 0, 0, 0, 0, 0, 0, 0, 0, 0, 0, 0, 0, 0, 0, 0, 0, 0, 0,
     0, 0, 0, 0, 0, 0, 0, 0, 0, 0, 0, 0, 0, 0, 0, 0, 0, 0, 0, 0]"

definition buf_ob :: "int list" where
  "buf_ob = [- 1000, - 1000, - 1000, - 1000, - 1000, - 1000, - 1000, - 1000,
     - 1000, 1, 1, 1, 1, 1, 1, - 1000,
     - 1000, 1, 1, 1, 1, 1, 1, - 1000,
     - 1000, 1, - 1, - 1, - 1, 1, 1, - 1000,
     - 1000, 1, - 1, 0, - 1, 1, 1, - 1000,
     - 1000, 1, - 1, 0, - 1, 1, 1, - 1000,
     - 1000, 1, - 1, - 1, - 1, 1, 1, - 1000,
     - 1000, 1, 1, 1, 1, 1, 1, - 1000,
     - 1000, 1, 1, 1, 1, 1, 1, - 1000,
     - 1000, - 1000, - 1000, - 1000, - 1000, - 1000, - 1000, - 1000]"

definition queue_ob :: "int list" where
  "queue_ob = [9, 10, 17, 11, 18, 25, 12, 19, 33, 13, 20, 41, 14, 21, 49, 22, 29, 57, 30, 37,
     58, 65, 38, 45, 59, 66, 46, 53, 60, 67, 54, 61, 68, 62, 69, 70, 0, 0, 0, 0,
     0, 0, 0, 0, 0, 0, 0, 0, 0, 0, 0, 0, 0, 0, 0, 0, 0, 0, 0, 0,
     0, 0, 0, 0, 0, 0, 0, 0, 0, 0, 0, 0, 0, 0, 0, 0, 0, 0, 0, 0]"

text \<open>The same for the inner segment, whose flood fill starts at the pixel 35.\<close>

definition buf_ia :: "int list" where
  "buf_ia = [- 1000, - 1000, - 1000, - 1000, - 1000, - 1000, - 1000, - 1000,
     - 1000, 1, 1, 1, 1, 1, 1, - 1000,
     - 1000, 1, 1, 1, 1, 1, 1, - 1000,
     - 1000, 1, - 1, - 1, - 1, 1, 1, - 1000,
     - 1000, 1, - 1, 2, - 1, 1, 1, - 1000,
     - 1000, 1, - 1, 0, - 1, 1, 1, - 1000,
     - 1000, 1, - 1, - 1, - 1, 1, 1, - 1000,
     - 1000, 1, 1, 1, 1, 1, 1, - 1000,
     - 1000, 1, 1, 1, 1, 1, 1, - 1000,
     - 1000, - 1000, - 1000, - 1000, - 1000, - 1000, - 1000, - 1000]"

definition queue_ia :: "int list" where
  "queue_ia = [9, 10, 17, 11, 18, 25, 12, 19, 33, 13, 20, 41, 14, 21, 49, 22, 29, 57, 30, 37,
     58, 65, 38, 45, 59, 66, 46, 53, 60, 67, 54, 61, 68, 62, 69, 70, 35, 0, 0, 0,
     0, 0, 0, 0, 0, 0, 0, 0, 0, 0, 0, 0, 0, 0, 0, 0, 0, 0, 0, 0,
     0, 0, 0, 0, 0, 0, 0, 0, 0, 0, 0, 0, 0, 0, 0, 0, 0, 0, 0, 0]"

definition buf_ib :: "int list" where
  "buf_ib = [- 1000, - 1000, - 1000, - 1000, - 1000, - 1000, - 1000, - 1000,
     - 1000, 1, 1, 1, 1, 1, 1, - 1000,
     - 1000, 1, 1, 1, 1, 1, 1, - 1000,
     - 1000, 1, 2, 2, 2, 1, 1, - 1000,
     - 1000, 1, 2, 2, 2, 1, 1, - 1000,
     - 1000, 1, 2, 2, 2, 1, 1, - 1000,
     - 1000, 1, 2, 2, 2, 1, 1, - 1000,
     - 1000, 1, 1, 1, 1, 1, 1, - 1000,
     - 1000, 1, 1, 1, 1, 1, 1, - 1000,
     - 1000, - 1000, - 1000, - 1000, - 1000, - 1000, - 1000, - 1000]"

definition queue_ib :: "int list" where
  "queue_ib = [9, 10, 17, 11, 18, 25, 12, 19, 33, 13, 20, 41, 14, 21, 49, 22, 29, 57, 30, 37,
     58, 65, 38, 45, 59, 66, 46, 53, 60, 67, 54, 61, 68, 62, 69, 70, 35, 36, 34, 27,
     43, 28, 44, 26, 42, 51, 52, 50, 0, 0, 0, 0, 0, 0, 0, 0, 0, 0, 0, 0,
     0, 0, 0, 0, 0, 0, 0, 0, 0, 0, 0, 0, 0, 0, 0, 0, 0, 0, 0, 0]"

text \<open>The same for the only segment of the black frame.\<close>

definition buf_tb :: "int list" where
  "buf_tb = [- 1000, - 1000, - 1000, - 1000, - 1000, - 1000, - 1000, - 1000,
     - 1000, 1, 1, 1, 1, 1, 1, - 1000,
     - 1000, 1, 1, 1, 1, 1, 1, - 1000,
     - 1000, 1, 1, 1, 1, 1, 1, - 1000,
     - 1000, 1, 1, 1, 1, 1, 1, - 1000,
     - 1000, 1, 1, 1, 1, 1, 1, - 1000,
     - 1000, 1, 1, 1, 1, 1, 1, - 1000,
     - 1000, 1, 1, 1, 1, 1, 1, - 1000,
     - 1000, 1, 1, 1, 1, 1, 1, - 1000,
     - 1000, - 1000, - 1000, - 1000, - 1000, - 1000, - 1000, - 1000]"

definition queue_tb :: "int list" where
  "queue_tb = [9, 10, 17, 11, 18, 25, 12, 19, 26, 33, 13, 20, 27, 34, 41, 14, 21, 28, 35, 42,
     49, 22, 29, 36, 43, 50, 57, 30, 37, 44, 51, 58, 65, 38, 45, 52, 59, 66, 46, 53,
     60, 67, 54, 61, 68, 62, 69, 70, 0, 0, 0, 0, 0, 0, 0, 0, 0, 0, 0, 0,
     0, 0, 0, 0, 0, 0, 0, 0, 0, 0, 0, 0, 0, 0, 0, 0, 0, 0, 0, 0]"

text \<open>
  The two segments as \<open>examineSegment\<close> leaves them, and as the fit leaves them; the last one
  is the result.
\<close>

definition seg_o :: SSegment where
  "seg_o = seg0\<lparr>s_x := 3, s_y := 4, s_size := 36, s_maxy := 8, s_maxx := 6, s_miny := 1,
     s_minx := 1, s_type := 2, s_roundness := roundness_of 6 8 (outerAreaRatio cfg_d) 36,
     s_round := True\<rparr>"

definition seg_i :: SSegment where
  "seg_i = seg0\<lparr>s_x := 3, s_y := 4, s_size := 12, s_maxy := 6, s_maxx := 4, s_miny := 3,
     s_minx := 2, s_mean := 765, s_type := 1,
     s_roundness := roundness_of 3 4 (innerAreaRatio cfg_d) 12, s_round := True\<rparr>"

definition seg_of :: SSegment where
  "seg_of = seg_o\<lparr>s_x := 7 / 2, s_y := 9 / 2, s_valid := True\<rparr>"

definition res_d :: SSegment where
  "res_d = seg_i\<lparr>s_x := 7 / 2, s_y := 9 / 2, s_angle := 0, s_horizontal := 1 / 2, s_size := 48,
     s_maxy := 8, s_maxx := 6, s_miny := 1, s_minx := 1, s_bwRatio := 3, s_valid := True,
     s_m0 := sqrt (21 / 4), s_m1 := sqrt (35 / 12), s_v0 := 0, s_v1 := - 1\<rparr>"

text \<open>The segment that the second call examines in the slot that held \<open>seg_of\<close>.\<close>

definition seg_t :: SSegment where
  "seg_t = seg_of\<lparr>s_x := 3, s_y := 4, s_size := 48,
     s_roundness := roundness_of 6 8 (outerAreaRatio cfg_d) 48, s_round := False,
     s_valid := False\<rparr>"

text \<open>The detector after the first call and after the second.\<close>

definition det_d1 :: detector where
  "det_d1 = \<lparr>buffer = buf_d, queue = queue_ib, queueStart = 48, queueEnd = 48,
     queueOldStart = 36, numSegments = 2, segmentArray = [seg_of, res_d, seg0, seg0],
     threshold = 382, lastThreshold = 382, numFailed = 0, lastTrackOK = True, drawAll = False\<rparr>"

definition det_d2 :: detector where
  "det_d2 = \<lparr>buffer = buf_d, queue = queue_tb, queueStart = 48, queueEnd = 48,
     queueOldStart = 0, numSegments = 1, segmentArray = [seg_t, res_d, seg0, seg0],
     threshold = 384, lastThreshold = 382, numFailed = 1, lastTrackOK = False, drawAll = False\<rparr>"

subsection \<open>The last matched pair\<close>

text \<open>
  \<open>fitted cfg w so si\<close>: the two segments are what a fit of a pair that passed the circularity
  test left, on a queue that held the pixels of the outer segment and then those of the
  inner one.
\<close>

definition fitted :: "config \<Rightarrow> int \<Rightarrow> SSegment \<Rightarrow> SSegment \<Rightarrow> bool" where
  "fitted cfg w so si =
     (\<exists>st outer inner.
        ellipse_fit cfg w st outer inner = Some (so, si, True) \<and>
        s_size outer = queueOldStart st \<and> s_size inner = queueEnd st - queueOldStart st \<and>
        0 < s_size outer \<and> 0 < s_size inner)"


subsection \<open>Sets of label-buffer cells\<close>

text \<open>\<open>written W v b0 b\<close>: \<open>b\<close> is \<open>b0\<close> with \<open>v\<close> in the cells whose index is in \<open>W\<close>.\<close>

definition written :: "int set \<Rightarrow> int \<Rightarrow> int list \<Rightarrow> int list \<Rightarrow> bool" where
  "written W v b0 b =
     (length b = length b0 \<and> (\<forall>j < length b0. b ! j = (if int j \<in> W then v else b0 ! j)))"

text \<open>The cells that the two loops of the full reset write, and the window of the local reset.\<close>

definition border_cells :: "int \<Rightarrow> int \<Rightarrow> int set" where
  "border_cells w h =
     {i. 0 \<le> i \<and> i < w} \<union> {(h - 1) * w + i | i. 0 \<le> i \<and> i < w}
     \<union> {w * i | i. 0 \<le> i \<and> i < h} \<union> {w * i + w - 1 | i. 0 \<le> i \<and> i < h}"

definition window_cells :: "int \<Rightarrow> int \<Rightarrow> int \<Rightarrow> int \<Rightarrow> int \<Rightarrow> int set" where
  "window_cells w ix ax iy ay = {y * w + x | x y. ix \<le> x \<and> x < ax \<and> iy \<le> y \<and> y < ay}"

section \<open>Properties\<close>

subsection \<open>What the parts of the scan leave unchanged\<close>

lemma trunc_of_int [simp]: "trunc (real_of_int n) = n"
  by (simp add: trunc_def)

lemma visit_frame:
  assumes "visit img type pos st = Some (p, st')"
  shows "threshold st' = threshold st \<and> lastThreshold st' = lastThreshold st \<and>
         numFailed st' = numFailed st \<and> lastTrackOK st' = lastTrackOK st \<and>
         drawAll st' = drawAll st \<and> segmentArray st' = segmentArray st \<and>
         numSegments st' = numSegments st \<and> queueOldStart st' = queueOldStart st"
  using assms
  by (auto simp: visit_def classify_at_def split: if_splits Option.bind_splits)

lemma flood_step_elim:
  assumes "flood_step cfg img type (st, bb) = Some s'"
  obtains position p1 st1 p2 st2 p3 st3 p4 st4 bb' where
    "rd (queue st) (queueStart st) = Some position"
    "visit img type (position + 1) (st\<lparr>queueStart := queueStart st + 1\<rparr>) = Some (p1, st1)"
    "visit img type (position - 1) st1 = Some (p2, st2)"
    "visit img type (position - width cfg) st2 = Some (p3, st3)"
    "visit img type (position + width cfg) st3 = Some (p4, st4)"
    "s' = (st4, bb')"
  using assms
  by (cases bb) (auto simp: flood_step_def Let_def split: Option.bind_splits prod.splits)

text \<open>An invariant of the four visits of a step is an invariant of the flood fill.\<close>

lemma floodFill_rule:
  assumes "floodFill cfg img type s = Some s'"
    and "P (fst s)"
    and "\<And>st. P st \<Longrightarrow> P (st\<lparr>queueStart := queueStart st + 1\<rparr>)"
    and "\<And>st pos p st'. P st \<Longrightarrow> visit img type pos st = Some (p, st') \<Longrightarrow> P st'"
  shows "P (fst s')"
  using assms
proof (induction cfg img type s rule: floodFill.induct)
  case (1 cfg img type s)
  note inc = "1.prems"(3) and vis = "1.prems"(4)
  show ?case
  proof (cases "queueEnd (fst s) > queueStart (fst s)")
    case False
    with "1.prems"(1,2) show ?thesis by (simp add: floodFill.simps [of cfg img type s])
  next
    case True
    with "1.prems"(1) obtain s1 where
      s1: "flood_step cfg img type s = Some s1" "floodFill cfg img type s1 = Some s'"
      by (auto simp: floodFill.simps [of cfg img type s] split: option.splits)
    obtain st bb where s: "s = (st, bb)" by (cases s)
    from s1(1) have "P (fst s1)"
      unfolding s
    proof (rule flood_step_elim, goal_cases)
      case (1 position p1 st1 p2 st2 p3 st3 p4 st4 bb')
      have "P (st\<lparr>queueStart := queueStart st + 1\<rparr>)"
        using "1.prems"(2) inc by (simp add: s)
      from vis [OF this 1(2)] have "P st1" .
      from vis [OF this 1(3)] have "P st2" .
      from vis [OF this 1(4)] have "P st3" .
      from vis [OF this 1(5)] have "P st4" .
      then show ?case using 1(6) by simp
    qed
    from "1.IH" [OF True s1 this inc vis] show ?thesis .
  qed
qed

lemma floodFill_frame:
  assumes "floodFill cfg img type s = Some s'"
  shows "threshold (fst s') = threshold (fst s) \<and> lastThreshold (fst s') = lastThreshold (fst s) \<and>
     numFailed (fst s') = numFailed (fst s) \<and> lastTrackOK (fst s') = lastTrackOK (fst s) \<and>
     drawAll (fst s') = drawAll (fst s) \<and> segmentArray (fst s') = segmentArray (fst s) \<and>
     numSegments (fst s') = numSegments (fst s) \<and> queueOldStart (fst s') = queueOldStart (fst s)"
  by (rule floodFill_rule [OF assms, where P = "\<lambda>t.
     threshold t = threshold (fst s) \<and> lastThreshold t = lastThreshold (fst s) \<and>
     numFailed t = numFailed (fst s) \<and> lastTrackOK t = lastTrackOK (fst s) \<and>
     drawAll t = drawAll (fst s) \<and> segmentArray t = segmentArray (fst s) \<and>
     numSegments t = numSegments (fst s) \<and> queueOldStart t = queueOldStart (fst s)"])
    (auto dest: visit_frame)



lemma segment_props_facts:
  assumes "segment_props cfg img type areaRatio segmen (st, bb) = Some (r, seg')"
  shows "s_valid seg' = s_valid segmen"
    and "s_size seg' = queueEnd st - queueOldStart st"
    and "r \<Longrightarrow> s_size seg' > minSize cfg"
  using assms
  by (cases bb; auto simp: segment_props_def Let_def split: if_splits Option.bind_splits)+

lemma segment_props_round:
  assumes "segment_props cfg img type areaRatio segmen (st, bb) = Some (r, seg')"
    and "\<not> s_round segmen"
  shows "s_round seg' = r"
  using assms
  by (cases bb) (auto simp: segment_props_def Let_def split: if_splits Option.bind_splits)

lemma examineSegment_elim:
  assumes "examineSegment cfg img k ii areaRatio st = Some (r, st')"
  obtains segmen type buf q stf bb seg' where
    "rd (segmentArray st) k = Some segmen"
    "rd (buffer st) ii = Some type"
    "wr (buffer st) ii (numSegments st + 1) = Some buf"
    "width cfg \<noteq> 0"
    "wr (queue st) (queueEnd st) ii = Some q"
    "floodFill cfg img type
       (st\<lparr>queueOldStart := queueStart st, numSegments := numSegments st + 1, buffer := buf,
           queue := q, queueEnd := queueEnd st + 1\<rparr>,
        ii smod width cfg, ii smod width cfg, ii sdiv width cfg, ii sdiv width cfg) = Some (stf, bb)"
    "segment_props cfg img type areaRatio
       (segmen\<lparr>s_x := real_of_int (ii smod width cfg), s_y := real_of_int (ii sdiv width cfg),
               s_valid := False, s_round := False\<rparr>) (stf, bb) = Some (r, seg')"
    "wr (segmentArray stf) k seg' = Some ((segmentArray stf)[nat k := seg'])"
    "st' = stf\<lparr>segmentArray := (segmentArray stf)[nat k := seg']\<rparr>"
  using assms unfolding examineSegment_def Let_def
  by (auto simp: wr_def split: Option.bind_splits if_splits prod.splits)

text \<open>
  What \<open>examineSegment\<close> does to the members other than the two arrays: the counter of
  segments grows by one, slot \<open>k\<close> holds a segment that is not valid, whose size is the length
  of its queue window and exceeds \<open>minSize\<close> if the function returns true, and the other
  slots are as before.
\<close>

lemma examineSegment_facts:
  assumes "examineSegment cfg img k ii areaRatio st = Some (r, st')"
  shows "threshold st' = threshold st" "lastThreshold st' = lastThreshold st"
    "numFailed st' = numFailed st" "lastTrackOK st' = lastTrackOK st"
    "drawAll st' = drawAll st" "numSegments st' = numSegments st + 1"
    "queueOldStart st' = queueStart st"
    "0 \<le> k" "k < int (length (segmentArray st))"
    "\<exists>seg'. segmentArray st' = (segmentArray st)[nat k := seg'] \<and> \<not> s_valid seg' \<and>
        s_round seg' = r \<and>
        s_size seg' = queueEnd st' - queueStart st \<and> (r \<longrightarrow> s_size seg' > minSize cfg)"
proof -
  from assms obtain segmen type buf q stf bb seg' where e:
    "rd (segmentArray st) k = Some segmen"
    "floodFill cfg img type
       (st\<lparr>queueOldStart := queueStart st, numSegments := numSegments st + 1, buffer := buf,
           queue := q, queueEnd := queueEnd st + 1\<rparr>,
        ii smod width cfg, ii smod width cfg, ii sdiv width cfg, ii sdiv width cfg) = Some (stf, bb)"
    "segment_props cfg img type areaRatio
       (segmen\<lparr>s_x := real_of_int (ii smod width cfg), s_y := real_of_int (ii sdiv width cfg),
               s_valid := False, s_round := False\<rparr>) (stf, bb) = Some (r, seg')"
    "st' = stf\<lparr>segmentArray := (segmentArray stf)[nat k := seg']\<rparr>"
    by (rule examineSegment_elim)
  note f = floodFill_frame [OF e(2), simplified]
  note p = segment_props_facts [OF e(3), simplified]
  from e(1) show "0 \<le> k" "k < int (length (segmentArray st))"
    by (auto simp: rd_def split: if_splits)
  show "threshold st' = threshold st" "lastThreshold st' = lastThreshold st"
    "numFailed st' = numFailed st" "lastTrackOK st' = lastTrackOK st"
    "drawAll st' = drawAll st" "numSegments st' = numSegments st + 1"
    "queueOldStart st' = queueStart st"
    using f by (simp_all add: e(4))
  have "segmentArray st' = (segmentArray st)[nat k := seg']" using f by (simp add: e(4))
  moreover have "\<not> s_valid seg'" using p(1) by simp
  moreover have "s_round seg' = r" using segment_props_round [OF e(3)] by simp
  moreover have "s_size seg' = queueEnd st' - queueStart st" using p(2) f by (simp add: e(4))
  moreover have "r \<longrightarrow> s_size seg' > minSize cfg" using p(3) by simp
  ultimately show "\<exists>seg'. segmentArray st' = (segmentArray st)[nat k := seg'] \<and> \<not> s_valid seg' \<and>
        s_round seg' = r \<and>
        s_size seg' = queueEnd st' - queueStart st \<and> (r \<longrightarrow> s_size seg' > minSize cfg)"
    by blast
qed



lemma fit_pair_elim:
  assumes "fit_pair cfg img start (st, ii) = Some (st', ii')"
  obtains outer inner outer' inner' ok where
    "rd (segmentArray st) (numSegments st - 2) = Some outer"
    "rd (segmentArray st) (numSegments st - 1) = Some inner"
    "getwidth img \<noteq> 0"
    "ellipse_fit cfg (getwidth img) st outer inner = Some (outer', inner', ok)"
    "ii' = (if track cfg then start - 1 else ii)"
    "st' = st\<lparr>threshold := (if ok then (s_mean outer + s_mean inner) sdiv 2 else threshold st),
              segmentArray := (segmentArray st)[nat (numSegments st - 2) := outer',
                                                nat (numSegments st - 1) := inner']\<rparr>"
  using assms unfolding fit_pair_def Let_def
  by (auto simp: wr_def split: Option.bind_splits prod.splits if_splits)

lemma match_pair_elim:
  assumes "match_pair cfg img start (st, ii) = Some (st', ii')"
  obtains (rejected) outer inner where
      "rd (segmentArray st) (numSegments st - 2) = Some outer"
      "rd (segmentArray st) (numSegments st - 1) = Some inner"
      "\<not> pair_test cfg outer inner" "st' = st" "ii' = ii"
  | (fitted) outer inner where
      "rd (segmentArray st) (numSegments st - 2) = Some outer"
      "rd (segmentArray st) (numSegments st - 1) = Some inner"
      "pair_test cfg outer inner" "fit_pair cfg img start (st, ii) = Some (st', ii')"
  using assms unfolding match_pair_def
  by (auto split: Option.bind_splits if_splits)

lemma mark_dark_elim:
  assumes "mark_dark img ii st = Some st'"
  obtains buf where "st' = st\<lparr>buffer := buf\<rparr>"
  using assms that [of "buffer st"] that unfolding mark_dark_def
  by (auto simp: bind_eq_Some_conv wr_def split: if_splits)

lemma classify_at_elim:
  assumes "classify_at img pos st = Some st'"
  obtains buf where "st' = st\<lparr>buffer := buf\<rparr>"
  using assms that [of "buffer st"] that unfolding classify_at_def
  by (auto simp: bind_eq_Some_conv wr_def split: if_splits)

lemma examine_inner_cases:
  assumes "examine_inner cfg img start (st, ii) = Some (st', ii')"
  obtains (no_inner) buf where "st' = st\<lparr>buffer := buf\<rparr>" "ii' = ii"
  | (inner) buf pos r std where
      "numSegments st < MAX_SEGMENTS cfg"
      "examineSegment cfg img (numSegments st) pos (innerAreaRatio cfg)
         (st\<lparr>buffer := buf\<rparr>) = Some (r, std)"
      "r \<and> match_pair cfg img start (std, ii) = Some (st', ii') \<or> \<not> r \<and> st' = std \<and> ii' = ii"
proof -
  from assms have "\<exists>pos stc.
    classify_at img pos st = Some stc \<and>
    (st' = stc \<and> ii' = ii \<or>
     numSegments stc < MAX_SEGMENTS cfg \<and>
     (\<exists>r std. examineSegment cfg img (numSegments stc) pos (innerAreaRatio cfg) stc = Some (r, std) \<and>
        (r \<and> match_pair cfg img start (std, ii) = Some (st', ii') \<or> \<not> r \<and> st' = std \<and> ii' = ii)))"
    unfolding examine_inner_def Let_def
    by (simp add: bind_eq_Some_conv split: if_splits prod.splits) blast
  then obtain pos stc where c: "classify_at img pos st = Some stc"
    "st' = stc \<and> ii' = ii \<or>
     numSegments stc < MAX_SEGMENTS cfg \<and>
     (\<exists>r std. examineSegment cfg img (numSegments stc) pos (innerAreaRatio cfg) stc = Some (r, std) \<and>
        (r \<and> match_pair cfg img start (std, ii) = Some (st', ii') \<or> \<not> r \<and> st' = std \<and> ii' = ii))"
    by blast
  from c(1) obtain buf where stc: "stc = st\<lparr>buffer := buf\<rparr>" by (rule classify_at_elim)
  from c(2) show ?thesis
  proof
    assume "st' = stc \<and> ii' = ii"
    with no_inner stc show ?thesis by simp
  next
    assume "numSegments stc < MAX_SEGMENTS cfg \<and>
     (\<exists>r std. examineSegment cfg img (numSegments stc) pos (innerAreaRatio cfg) stc = Some (r, std) \<and>
        (r \<and> match_pair cfg img start (std, ii) = Some (st', ii') \<or> \<not> r \<and> st' = std \<and> ii' = ii))"
    then obtain r std where e: "numSegments st < MAX_SEGMENTS cfg"
      "examineSegment cfg img (numSegments st) pos (innerAreaRatio cfg)
         (st\<lparr>buffer := buf\<rparr>) = Some (r, std)"
      "r \<and> match_pair cfg img start (std, ii) = Some (st', ii') \<or> \<not> r \<and> st' = std \<and> ii' = ii"
      by (auto simp: stc)
    then show ?thesis by (rule inner)
  qed
qed

lemma examine_outer_elim:
  assumes "examine_outer cfg img start (st, ii) = Some (st', ii')"
  obtains r stb where
    "examineSegment cfg img (numSegments st) ii (outerAreaRatio cfg)
       (st\<lparr>queueEnd := 0, queueStart := 0\<rparr>) = Some (r, stb)"
    "r \<and> examine_inner cfg img start (stb, ii) = Some (st', ii') \<or> \<not> r \<and> st' = stb \<and> ii' = ii"
  using assms unfolding examine_outer_def Let_def
  by (auto simp: bind_eq_Some_conv split: if_splits)

lemma scan_body_elim:
  assumes "scan_body cfg img start (st, ii) = Some (st', ii')"
  obtains buf where
    "numSegments st < MAX_SEGMENTS cfg \<and>
       examine_outer cfg img start (st\<lparr>buffer := buf\<rparr>, ii) = Some (st', ii')
     \<or> st' = st\<lparr>buffer := buf\<rparr> \<and> ii' = ii"
proof -
  from assms obtain sta and b :: int where a: "mark_dark img ii st = Some sta"
    "(if b = - 2 \<and> numSegments sta < MAX_SEGMENTS cfg
     then examine_outer cfg img start (sta, ii)
     else Some (sta, ii)) = Some (st', ii')"
    unfolding scan_body_def by (auto simp: bind_eq_Some_conv)
  from a(1) obtain buf where sta: "sta = st\<lparr>buffer := buf\<rparr>" by (rule mark_dark_elim)
  from a(2) have "numSegments st < MAX_SEGMENTS cfg \<and>
       examine_outer cfg img start (st\<lparr>buffer := buf\<rparr>, ii) = Some (st', ii')
     \<or> st' = st\<lparr>buffer := buf\<rparr> \<and> ii' = ii"
    by (auto simp: sta split: if_splits)
  then show ?thesis by (rule that)
qed

text \<open>The ways through one round of the scan.\<close>

lemma scan_body_cases:
  assumes "scan_body cfg img start (st, ii) = Some (st', ii')"
  obtains (skip) buf where "st' = st\<lparr>buffer := buf\<rparr>" "ii' = ii"
  | (outer) buf r stb buf' where
      "numSegments st < MAX_SEGMENTS cfg"
      "examineSegment cfg img (numSegments st) ii (outerAreaRatio cfg)
         (st\<lparr>buffer := buf, queueEnd := 0, queueStart := 0\<rparr>) = Some (r, stb)"
      "st' = stb\<lparr>buffer := buf'\<rparr>" "ii' = ii"
  | (inner) buf stb buf' pos r std where
      "numSegments st < MAX_SEGMENTS cfg"
      "examineSegment cfg img (numSegments st) ii (outerAreaRatio cfg)
         (st\<lparr>buffer := buf, queueEnd := 0, queueStart := 0\<rparr>) = Some (True, stb)"
      "numSegments stb < MAX_SEGMENTS cfg"
      "examineSegment cfg img (numSegments stb) pos (innerAreaRatio cfg)
         (stb\<lparr>buffer := buf'\<rparr>) = Some (r, std)"
      "r \<and> match_pair cfg img start (std, ii) = Some (st', ii') \<or> \<not> r \<and> st' = std \<and> ii' = ii"
proof -
  from assms obtain buf where
    "numSegments st < MAX_SEGMENTS cfg \<and>
       examine_outer cfg img start (st\<lparr>buffer := buf\<rparr>, ii) = Some (st', ii')
     \<or> st' = st\<lparr>buffer := buf\<rparr> \<and> ii' = ii"
    by (rule scan_body_elim)
  then show ?thesis
  proof
    assume "st' = st\<lparr>buffer := buf\<rparr> \<and> ii' = ii"
    with skip show ?thesis by simp
  next
    assume o: "numSegments st < MAX_SEGMENTS cfg \<and>
       examine_outer cfg img start (st\<lparr>buffer := buf\<rparr>, ii) = Some (st', ii')"
    then obtain r stb where e1:
      "examineSegment cfg img (numSegments st) ii (outerAreaRatio cfg)
         (st\<lparr>buffer := buf, queueEnd := 0, queueStart := 0\<rparr>) = Some (r, stb)"
      "r \<and> examine_inner cfg img start (stb, ii) = Some (st', ii') \<or> \<not> r \<and> st' = stb \<and> ii' = ii"
      by (auto elim: examine_outer_elim)
    from e1(2) show ?thesis
    proof
      assume "\<not> r \<and> st' = stb \<and> ii' = ii"
      then have "st' = stb\<lparr>buffer := buffer stb\<rparr>" "ii' = ii" by simp_all
      with outer o e1(1) show ?thesis by blast
    next
      assume i: "r \<and> examine_inner cfg img start (stb, ii) = Some (st', ii')"
      then have ei: "examine_inner cfg img start (stb, ii) = Some (st', ii')" and r: r by simp_all
      from ei show ?thesis
      proof (cases rule: examine_inner_cases)
        case (no_inner buf')
        with outer o e1(1) show ?thesis by blast
      next
        case (inner buf' pos r2 std)
        show ?thesis
        proof (rule that(3))
          show "numSegments st < MAX_SEGMENTS cfg" using o by simp
          show "examineSegment cfg img (numSegments st) ii (outerAreaRatio cfg)
             (st\<lparr>buffer := buf, queueEnd := 0, queueStart := 0\<rparr>) = Some (True, stb)"
            using e1(1) r by simp
          show "numSegments stb < MAX_SEGMENTS cfg" by (rule inner(1))
          show "examineSegment cfg img (numSegments stb) pos (innerAreaRatio cfg)
             (stb\<lparr>buffer := buf'\<rparr>) = Some (r2, std)" by (rule inner(2))
          show "r2 \<and> match_pair cfg img start (std, ii) = Some (st', ii')
             \<or> \<not> r2 \<and> st' = std \<and> ii' = ii" by (rule inner(3))
        qed
      qed
    qed
  qed
qed

text \<open>An invariant of the rounds is an invariant of the scan.\<close>

lemma scan_rule:
  assumes "scan cfg img start s = Some st'"
    and "P (fst s)"
    and "\<And>st ii st1 ii1. P st \<Longrightarrow> scan_body cfg img start (st, ii) = Some (st1, ii1) \<Longrightarrow> P st1"
  shows "P st'"
  using assms
proof (induction cfg img start s rule: scan.induct)
  case (1 cfg img start s)
  note step = "1.prems"(3)
  from "1.prems"(1) have g: "0 \<le> snd s \<and> snd s < len cfg \<and> 0 \<le> start \<and> start < len cfg"
    by (auto simp: scan.simps [of cfg img start s] split: if_splits)
  with "1.prems"(1) obtain s1 where s1: "scan_body cfg img start s = Some s1"
    and r: "(if scan_next cfg (snd s1) \<noteq> start
             then scan cfg img start (fst s1, scan_next cfg (snd s1))
             else Some (fst s1)) = Some st'"
    by (auto simp: scan.simps [of cfg img start s] split: option.splits)
  have P1: "P (fst s1)"
    using step [of "fst s" "snd s" "fst s1" "snd s1"] "1.prems"(2) s1 by simp
  show ?case
  proof (cases "scan_next cfg (snd s1) \<noteq> start")
    case True
    with r have "scan cfg img start (fst s1, scan_next cfg (snd s1)) = Some st'" by simp
    from "1.IH" [OF _ s1 True this] g P1 step show ?thesis by simp
  next
    case False
    with r P1 show ?thesis by simp
  qed
qed

subsection \<open>The threshold schedule\<close>

lemma sdiv_nonneg_pos: "0 \<le> a \<Longrightarrow> 0 < b \<Longrightarrow> a sdiv b = a div (b::int)"
  by (cases "a = 0") (simp_all add: signed_divide_int_def)

lemma smod_nonneg_pos: "0 \<le> a \<Longrightarrow> 0 < b \<Longrightarrow> a smod b = a mod (b::int)"
  by (cases "a = 0") (simp_all add: signed_modulo_int_def)

lemma changeThreshold_loop_pow:
  "1 \<le> dum \<Longrightarrow> \<exists>k. snd (changeThreshold_loop dum d) = d * 2 ^ k \<and> 2 ^ k \<le> dum \<and> dum < 2 * 2 ^ k"
proof (induction dum d rule: changeThreshold_loop.induct)
  case (1 dum d)
  show ?case
  proof (cases "dum > 1")
    case False
    with "1.prems" have "dum = 1" by simp
    then have "snd (changeThreshold_loop dum d) = d * 2 ^ 0 \<and> 2 ^ 0 \<le> dum \<and> dum < 2 * 2 ^ 0"
      by (simp add: changeThreshold_loop.simps [of 1])
    then show ?thesis by blast
  next
    case True
    then have h: "dum sdiv 2 = dum div 2" by (simp add: sdiv_nonneg_pos)
    from True have "1 \<le> dum sdiv 2" by (simp add: h)
    from "1.IH" [OF True this] obtain k where
      k: "snd (changeThreshold_loop (dum sdiv 2) (d * 2)) = d * 2 * 2 ^ k"
         "2 ^ k \<le> dum sdiv 2" "dum sdiv 2 < 2 * 2 ^ k"
      by blast
    have "snd (changeThreshold_loop dum d) = d * 2 ^ Suc k"
      using True k(1) by (simp add: changeThreshold_loop.simps [of dum])
    moreover have "2 ^ Suc k \<le> dum" using k(2) by (simp add: h)
    moreover have "dum < 2 * 2 ^ Suc k" using k(3) by (simp add: h)
    ultimately show ?thesis by blast
  qed
qed

text \<open>
  C4. For every \<open>numFailed \<ge> 1\<close>, \<open>changeThreshold\<close> sets the threshold to
  \<open>3 * (step * (numFailed - div) + step / 2)\<close>, where \<open>div\<close> is the largest power of two not
  exceeding \<open>numFailed\<close> and \<open>step = 256 / div\<close> (integer division), and returns true if and
  only if \<open>step > 16\<close>. The probes for the counts 1, 2, 3, 4, 5, 6, 7 are, per channel,
  128, 64, 192, 32, 96, 160, 224.
\<close>

theorem changeThreshold_schedule:
  "1 \<le> numFailed st \<longrightarrow>
     (\<exists>k. 2 ^ k \<le> numFailed st \<and> numFailed st < 2 * 2 ^ k \<and>
        snd (changeThreshold st) =
          st\<lparr>threshold := 3 * ((256 div 2 ^ k) * (numFailed st - 2 ^ k) + (256 div 2 ^ k) div 2)\<rparr> \<and>
        fst (changeThreshold st) = (256 div (2 ^ k :: int) > 16))
   \<and> map (\<lambda>n. threshold (snd (changeThreshold (st\<lparr>numFailed := n\<rparr>)))) [1, 2, 3, 4, 5, 6, 7]
       = map (\<lambda>c. 3 * c) [128, 64, 192, 32, 96, 160, 224]"
proof (intro conjI impI)
  assume "1 \<le> numFailed st"
  from changeThreshold_loop_pow [OF this, of 1] obtain k where
    k: "snd (changeThreshold_loop (numFailed st) 1) = 2 ^ k"
       "2 ^ k \<le> numFailed st" "numFailed st < 2 * 2 ^ k"
    by auto
  have p: "(0::int) < 2 ^ k" by simp
  have s1: "256 sdiv (2 ^ k :: int) = 256 div 2 ^ k"
    by (rule sdiv_nonneg_pos) (use p in auto)
  have "(0::int) \<le> 256 div 2 ^ k" by (simp add: pos_imp_zdiv_nonneg_iff)
  then have s2: "(256 div (2 ^ k :: int)) sdiv 2 = (256 div 2 ^ k) div 2"
    by (simp add: sdiv_nonneg_pos)
  show "\<exists>k. 2 ^ k \<le> numFailed st \<and> numFailed st < 2 * 2 ^ k \<and>
        snd (changeThreshold st) =
          st\<lparr>threshold := 3 * ((256 div 2 ^ k) * (numFailed st - 2 ^ k) + (256 div 2 ^ k) div 2)\<rparr> \<and>
        fst (changeThreshold st) = (256 div (2 ^ k :: int) > 16)"
    using k by (intro exI [of _ k]) (simp add: changeThreshold_def Let_def s1 s2)
next
  show "map (\<lambda>n. threshold (snd (changeThreshold (st\<lparr>numFailed := n\<rparr>)))) [1, 2, 3, 4, 5, 6, 7]
       = map (\<lambda>c. 3 * c) [128, 64, 192, 32, 96, 160, 224]"
    by (simp add: changeThreshold_def changeThreshold_loop.simps)
qed

theorem changeThreshold_schedule_witness:
  "1 \<le> numFailed (det0\<lparr>numFailed := 5\<rparr>) \<and>
   (\<exists>k. 2 ^ k \<le> numFailed (det0\<lparr>numFailed := 5\<rparr>) \<and>
        numFailed (det0\<lparr>numFailed := 5\<rparr>) < 2 * 2 ^ k \<and>
        snd (changeThreshold (det0\<lparr>numFailed := 5\<rparr>)) =
          det0\<lparr>numFailed := 5,
               threshold := 3 * ((256 div 2 ^ k) * (5 - 2 ^ k) + (256 div 2 ^ k) div 2)\<rparr> \<and>
        fst (changeThreshold (det0\<lparr>numFailed := 5\<rparr>)) = (256 div (2 ^ k :: int) > 16))"
proof -
  have h: "1 \<le> numFailed (det0\<lparr>numFailed := 5\<rparr>)" by simp
  from changeThreshold_schedule [of "det0\<lparr>numFailed := 5\<rparr>"] h show ?thesis by simp
qed

lemma match_pair_ctl:
  assumes "match_pair cfg img start (st, ii) = Some (st', ii')"
  shows "lastThreshold st' = lastThreshold st \<and> numFailed st' = numFailed st \<and>
         lastTrackOK st' = lastTrackOK st \<and> drawAll st' = drawAll st \<and>
         numSegments st' = numSegments st \<and> queue st' = queue st \<and>
         queueStart st' = queueStart st \<and> queueEnd st' = queueEnd st \<and>
         queueOldStart st' = queueOldStart st \<and> buffer st' = buffer st"
  using assms
proof (cases rule: match_pair_elim)
  case (rejected outer inner)
  then show ?thesis by simp
next
  case (fitted outer inner)
  from fitted(4) show ?thesis by (rule fit_pair_elim) simp
qed

lemma scan_body_ctl:
  assumes "scan_body cfg img start (st, ii) = Some (st', ii')"
  shows "lastThreshold st' = lastThreshold st \<and> numFailed st' = numFailed st \<and>
         lastTrackOK st' = lastTrackOK st \<and> drawAll st' = drawAll st"
  using assms
proof (cases rule: scan_body_cases)
  case (skip buf)
  then show ?thesis by simp
next
  case (outer buf r stb buf')
  from examineSegment_facts(2-5) [OF outer(2)] outer(3) show ?thesis by simp
next
  case (inner buf stb buf' pos r std)
  note a = examineSegment_facts(2-5) [OF inner(2)]
  note b = examineSegment_facts(2-5) [OF inner(4)]
  from inner(5) show ?thesis
  proof
    assume "\<not> r \<and> st' = std \<and> ii' = ii"
    with a b show ?thesis by simp
  next
    assume "r \<and> match_pair cfg img start (std, ii) = Some (st', ii')"
    with match_pair_ctl [of cfg img start std ii st' ii'] a b show ?thesis by simp
  qed
qed

lemma scan_ctl:
  assumes "scan cfg img start s = Some st'"
  shows "lastThreshold st' = lastThreshold (fst s) \<and> numFailed st' = numFailed (fst s) \<and>
         lastTrackOK st' = lastTrackOK (fst s) \<and> drawAll st' = drawAll (fst s)"
  by (rule scan_rule [OF assms, where P = "\<lambda>t. lastThreshold t = lastThreshold (fst s) \<and>
         numFailed t = numFailed (fst s) \<and> lastTrackOK t = lastTrackOK (fst s) \<and>
         drawAll t = drawAll (fst s)"])
     (auto dest: scan_body_ctl)

lemma bufferCleanup_elim:
  assumes "bufferCleanup cfg init st = Some st'"
  obtains buf where "st' = st\<lparr>buffer := buf\<rparr>"
  using assms unfolding bufferCleanup_def Let_def
  by (auto simp: bind_eq_Some_conv split: if_splits)

lemma findSegment_elim:
  assumes "findSegment cfg uninit img init st = Some (result, img', st')"
  obtains start stm ok d d' where
    "start = (if s_valid init \<and> track cfg
              then trunc (real_of_int (trunc (s_y init) * getwidth img) + s_x init) else 0)"
    "scan cfg img start (st\<lparr>numSegments := 0\<rparr>, start) = Some stm"
    "select_result cfg stm (uninit\<lparr>s_x := 0, s_y := 0, s_round := False, s_valid := False\<rparr>)
       = Some result"
    "track_ok stm = Some ok"
    "blank_last (failure_update cfg result (stm\<lparr>lastTrackOK := ok\<rparr>)) (data img) = Some d"
    "draw_segments cfg (failure_update cfg result (stm\<lparr>lastTrackOK := ok\<rparr>)) d = Some d'"
    "bufferCleanup cfg result (failure_update cfg result (stm\<lparr>lastTrackOK := ok\<rparr>)) = Some st'"
    "img' = img\<lparr>data := d'\<rparr>"
  using assms unfolding findSegment_def Let_def
  by (auto simp: bind_eq_Some_conv)

subsection \<open>The failure counter\<close>

lemma changeThreshold_loop_le1: "dum \<le> 1 \<Longrightarrow> changeThreshold_loop dum d = (dum, d)"
  by (simp add: changeThreshold_loop.simps [of dum])

lemma changeThreshold_result: "fst (changeThreshold st) = (numFailed st < 16)"
proof (cases "1 \<le> numFailed st")
  case False
  then show ?thesis by (simp add: changeThreshold_def changeThreshold_loop_le1)
next
  case True
  from changeThreshold_loop_pow [OF this, of 1] obtain k where
    k: "snd (changeThreshold_loop (numFailed st) 1) = 2 ^ k"
       "2 ^ k \<le> numFailed st" "numFailed st < 2 * 2 ^ k"
    by auto
  have s1: "256 sdiv (2 ^ k :: int) = 256 div 2 ^ k"
    by (rule sdiv_nonneg_pos) auto
  show ?thesis
  proof (cases "k < 4")
    case True
    then have "k = 0 \<or> k = 1 \<or> k = 2 \<or> k = 3" by arith
    then show ?thesis using k by (auto simp: changeThreshold_def Let_def s1)
  next
    case False
    then have "(2::int) ^ 4 \<le> 2 ^ k" by (intro power_increasing) auto
    then have g: "(16::int) \<le> 2 ^ k" by simp
    have "256 div (2 ^ k :: int) \<le> 256 div 16"
      by (rule zdiv_mono2) (use g in auto)
    then show ?thesis using k g by (simp add: changeThreshold_def Let_def s1)
  qed
qed

lemma changeThreshold_numFailed: "numFailed (snd (changeThreshold st)) = numFailed st"
  by (simp add: changeThreshold_def Let_def)

lemma failure_update_numFailed:
  "numFailed (failure_update cfg result st) =
     (if s_valid result then 0
      else if numFailed st < maxFailed cfg then numFailed st + 1
      else if numFailed st + 1 < 16 then numFailed st + 1 else 0)"
  unfolding failure_update_def Let_def
  by (simp add: case_prod_beta changeThreshold_numFailed changeThreshold_result)

lemma findSegment_numFailed:
  assumes "findSegment cfg uninit img init st = Some (result, img', st')"
  obtains stm where "numFailed stm = numFailed st" 
    "numFailed st' = numFailed (failure_update cfg result stm)"
proof -
  from assms obtain start stm ok where
    s: "scan cfg img start (st\<lparr>numSegments := 0\<rparr>, start) = Some stm"
    and b: "bufferCleanup cfg result (failure_update cfg result (stm\<lparr>lastTrackOK := ok\<rparr>)) = Some st'"
    by (rule findSegment_elim)
  from scan_ctl [OF s] have "numFailed (stm\<lparr>lastTrackOK := ok\<rparr>) = numFailed st" by simp
  moreover from b have "numFailed st' = numFailed (failure_update cfg result (stm\<lparr>lastTrackOK := ok\<rparr>))"
    by (rule bufferCleanup_elim) simp
  ultimately show ?thesis by (rule that)
qed

lemma run_frames_bound:
  "frames \<noteq> [] \<Longrightarrow> run_frames cfg uninit frames st = Some st' \<Longrightarrow>
     numFailed st' \<le> max (maxFailed cfg) 16"
proof (induction frames arbitrary: st)
  case Nil
  then show ?case by simp
next
  case (Cons f fs)
  from Cons.prems(2) obtain result img' st1 where
    f: "findSegment cfg uninit (fst f) (snd f) st = Some (result, img', st1)"
    and r: "run_frames cfg uninit fs st1 = Some st'"
    by (auto split: option.splits)
  show ?case
  proof (cases "fs = []")
    case True
    from f obtain stm where "numFailed st1 = numFailed (failure_update cfg result stm)"
      by (rule findSegment_numFailed)
    then have "numFailed st1 \<le> max (maxFailed cfg) 16"
      by (auto simp: failure_update_numFailed)
    with r True show ?thesis by simp
  next
    case False
    from Cons.IH [OF False r] show ?thesis .
  qed
qed

text \<open>
  C5. After any non-empty sequence of frames, from any state of the detector, the
  failure counter is at most \<open>max(maxFailed, 16)\<close>; and a failed frame that starts with
  \<open>numFailed \<ge> maxFailed\<close> and in which \<open>changeThreshold\<close> (called on the incremented counter)
  returns false ends with \<open>numFailed = 0\<close>.
\<close>

theorem failure_counter_bounded:
  "(frames \<noteq> [] \<longrightarrow> run_frames cfg uninit frames st = Some st' \<longrightarrow>
      numFailed st' \<le> max (maxFailed cfg) 16) \<and>
   (findSegment cfg uninit img init st = Some (result, img', st'') \<longrightarrow>
      \<not> s_valid result \<longrightarrow> maxFailed cfg \<le> numFailed st \<longrightarrow>
      \<not> fst (changeThreshold (st\<lparr>numFailed := numFailed st + 1\<rparr>)) \<longrightarrow> numFailed st'' = 0)"
proof (intro conjI impI)
  assume "frames \<noteq> []" "run_frames cfg uninit frames st = Some st'"
  then show "numFailed st' \<le> max (maxFailed cfg) 16" by (rule run_frames_bound)
next
  assume f: "findSegment cfg uninit img init st = Some (result, img', st'')"
    and a: "\<not> s_valid result" "maxFailed cfg \<le> numFailed st"
      "\<not> fst (changeThreshold (st\<lparr>numFailed := numFailed st + 1\<rparr>))"
  from f obtain stm where m: "numFailed stm = numFailed st"
    "numFailed st'' = numFailed (failure_update cfg result stm)"
    by (rule findSegment_numFailed)
  from a(3) have "\<not> numFailed st + 1 < 16" by (simp add: changeThreshold_result)
  with a m show "numFailed st'' = 0" by (simp add: failure_update_numFailed)
qed

lemma findSegment_tiny:
  "findSegment cfg_tiny seg0 img_tiny seg0 det_tiny
     = Some (seg0, img_tiny, det_tiny\<lparr>threshold := 24, numFailed := 0\<rparr>)"
  by (simp add: findSegment_def cfg_tiny_def CCircleDetect_config_def Let_def seg0_def
      det_tiny_def det0_def img_tiny_def scan.simps scan_body_def mark_dark_def rd_def
      scan_next_def select_result_def track_ok_def failure_update_def blank_last_def
      draw_segments_def bufferCleanup_def memset0_def wr_def upto.simps
      changeThreshold_def changeThreshold_loop.simps)

theorem failure_counter_bounded_witness:
  "[(img_tiny, seg0)] \<noteq> [] \<and>
   run_frames cfg_tiny seg0 [(img_tiny, seg0)] det_tiny
     = Some (det_tiny\<lparr>threshold := 24, numFailed := 0\<rparr>) \<and>
   findSegment cfg_tiny seg0 img_tiny seg0 det_tiny
     = Some (seg0, img_tiny, det_tiny\<lparr>threshold := 24, numFailed := 0\<rparr>) \<and>
   \<not> s_valid seg0 \<and> maxFailed cfg_tiny \<le> numFailed det_tiny \<and>
   \<not> fst (changeThreshold (det_tiny\<lparr>numFailed := numFailed det_tiny + 1\<rparr>)) \<and>
   numFailed (det_tiny\<lparr>threshold := 24, numFailed := 0\<rparr>) \<le> max (maxFailed cfg_tiny) 16 \<and>
   numFailed (det_tiny\<lparr>threshold := 24, numFailed := 0\<rparr>) = 0"
  using failure_counter_bounded [of "[(img_tiny, seg0)]" cfg_tiny seg0 det_tiny
      "det_tiny\<lparr>threshold := 24, numFailed := 0\<rparr>" img_tiny seg0 seg0 img_tiny
      "det_tiny\<lparr>threshold := 24, numFailed := 0\<rparr>"]
  by (simp add: findSegment_tiny changeThreshold_result)
     (simp add: seg0_def det_tiny_def det0_def cfg_tiny_def CCircleDetect_config_def)

subsection \<open>bufferCleanup\<close>

text \<open>A counted loop establishes what its body maintains, index by index.\<close>

lemma for_loop_rule_aux:
  assumes "\<And>pre i s. P pre s \<Longrightarrow> i \<in> set is \<Longrightarrow> \<exists>s'. body i s = Some s' \<and> P (pre @ [i]) s'"
    and "P pre s"
  shows "\<exists>s'. for_loop is body s = Some s' \<and> P (pre @ is) s'"
  using assms
proof (induction "is" arbitrary: pre s)
  case Nil
  then show ?case by simp
next
  case (Cons i "is")
  from Cons.prems(1) [OF Cons.prems(2), of i] obtain s1 where
    s1: "body i s = Some s1" "P (pre @ [i]) s1" by auto
  have "\<exists>s'. for_loop is body s1 = Some s' \<and> P ((pre @ [i]) @ is) s'"
    by (rule Cons.IH [OF _ s1(2)]) (use Cons.prems(1) in auto)
  with s1(1) show ?case by simp
qed

lemma for_loop_rule:
  assumes "P [] s"
    and "\<And>pre i s. P pre s \<Longrightarrow> i \<in> set is \<Longrightarrow> \<exists>s'. body i s = Some s' \<and> P (pre @ [i]) s'"
  shows "\<exists>s'. for_loop is body s = Some s' \<and> P is s'"
  using for_loop_rule_aux [of P "is" body "[]" s] assms by simp

lemma written_wr:
  assumes "written W v b0 b" "0 \<le> i" "i < int (length b0)"
  shows "\<exists>b'. wr b i v = Some b' \<and> written (insert i W) v b0 b'"
  using assms by (auto simp: written_def wr_def nth_list_update)

lemma written_wr2:
  assumes "written W v b0 b" "0 \<le> i" "i < int (length b0)" "0 \<le> k" "k < int (length b0)"
  shows "\<exists>b'. (wr b i v \<bind> (\<lambda>b. wr b k v)) = Some b' \<and> written (insert k (insert i W)) v b0 b'"
proof -
  from written_wr [OF assms(1-3)] obtain b1 where
    b1: "wr b i v = Some b1" "written (insert i W) v b0 b1" by blast
  from written_wr [OF b1(2) assms(4,5)] b1(1) show ?thesis by simp
qed

lemma written_weaken: "written W v b0 b \<Longrightarrow> W = W' \<Longrightarrow> written W' v b0 b"
  by simp

lemma cell_index_unique:
  fixes w :: int
  assumes "0 \<le> x" "x < w" "0 \<le> x'" "x' < w" "y * w + x = y' * w + x'"
  shows "x = x' \<and> y = y'"
proof -
  have "(y * w + x) mod w = x mod w" "(y' * w + x') mod w = x' mod w"
    by simp_all
  moreover have "x mod w = x" "x' mod w = x'"
    using assms by simp_all
  ultimately have x: "x = x'" using assms(5) by metis
  with assms have "y * w = y' * w" by simp
  with assms x show ?thesis by auto
qed

lemma cell_index_range:
  fixes w h :: int
  assumes "0 \<le> x" "x < w" "0 \<le> y" "y < h"
  shows "0 \<le> y * w + x" "y * w + x < w * h"
proof -
  from assms show "0 \<le> y * w + x" by simp
  have "y + 1 \<le> h" using assms by simp
  then have "(y + 1) * w \<le> h * w" using assms by (intro mult_right_mono) auto
  then show "y * w + x < w * h" using assms by (simp add: algebra_simps)
qed

text \<open>The two loops of the full reset write the sentinel on the border.\<close>

lemma border_loops:
  fixes w h :: int
  assumes "0 < w" "0 < h" "int (length b0) = w * h"
  shows "\<exists>b1 b2.
     for_loop [0..w - 1]
       (\<lambda>i buf. do { buf \<leftarrow> wr buf i (- 1000); wr buf ((h - 1) * w + i) (- 1000) }) b0 = Some b1 \<and>
     for_loop [0..h - 1]
       (\<lambda>i buf. do { buf \<leftarrow> wr buf (w * i) (- 1000); wr buf (w * i + w - 1) (- 1000) }) b1 = Some b2 \<and>
     written (border_cells w h) (- 1000) b0 b2"
proof -
  let ?W1 = "\<lambda>pre. {i. i \<in> set pre} \<union> {(h - 1) * w + i | i. i \<in> set pre}"
  have "\<exists>b1. for_loop [0..w - 1]
       (\<lambda>i buf. do { buf \<leftarrow> wr buf i (- 1000); wr buf ((h - 1) * w + i) (- 1000) }) b0 = Some b1
       \<and> written (?W1 [0..w - 1]) (- 1000) b0 b1"
  proof (rule for_loop_rule, goal_cases)
    case 1
    show ?case by (simp add: written_def)
  next
    case (2 pre i s)
    then have i: "0 \<le> i" "i < w" by auto
    have r1: "0 \<le> i" "i < int (length b0)"
      using cell_index_range [of i w 0 h] i assms by auto
    have r2: "0 \<le> (h - 1) * w + i" "(h - 1) * w + i < int (length b0)"
      using cell_index_range [of i w "h - 1" h] i assms by auto
    from written_wr2 [OF 2(1) r1 r2] obtain b' where
      b': "(wr s i (- 1000) \<bind> (\<lambda>b. wr b ((h - 1) * w + i) (- 1000))) = Some b'"
        "written (insert ((h - 1) * w + i) (insert i (?W1 pre))) (- 1000) b0 b'"
      by blast
    have "written (?W1 (pre @ [i])) (- 1000) b0 b'"
      by (rule written_weaken [OF b'(2)]) auto
    with b'(1) show ?case by blast
  qed
  then obtain b1 where b1: "for_loop [0..w - 1]
       (\<lambda>i buf. do { buf \<leftarrow> wr buf i (- 1000); wr buf ((h - 1) * w + i) (- 1000) }) b0 = Some b1"
    "written (?W1 [0..w - 1]) (- 1000) b0 b1" by blast
  let ?W2 = "\<lambda>pre. ?W1 [0..w - 1] \<union> {w * i | i. i \<in> set pre} \<union> {w * i + w - 1 | i. i \<in> set pre}"
  have "\<exists>b2. for_loop [0..h - 1]
       (\<lambda>i buf. do { buf \<leftarrow> wr buf (w * i) (- 1000); wr buf (w * i + w - 1) (- 1000) }) b1 = Some b2
       \<and> written (?W2 [0..h - 1]) (- 1000) b0 b2"
  proof (rule for_loop_rule, goal_cases)
    case 1
    show ?case by (rule written_weaken [OF b1(2)]) auto
  next
    case (2 pre i s)
    then have i: "0 \<le> i" "i < h" by auto
    have r1: "0 \<le> w * i" "w * i < int (length b0)"
      using cell_index_range [of 0 w i h] i assms by (auto simp: mult.commute)
    have "0 \<le> w * i" using i assms by simp
    then have r2a: "0 \<le> w * i + w - 1" using assms(1) by linarith
    have "i * w + (w - 1) < w * h"
      using cell_index_range(2) [of "w - 1" w i h] i assms by simp
    then have "w * i + w - 1 < int (length b0)"
      unfolding assms(3) by (simp add: algebra_simps)
    note r2 = r2a this
    from written_wr2 [OF 2(1) r1 r2] obtain b' where
      b': "(wr s (w * i) (- 1000) \<bind> (\<lambda>b. wr b (w * i + w - 1) (- 1000))) = Some b'"
        "written (insert (w * i + w - 1) (insert (w * i) (?W2 pre))) (- 1000) b0 b'"
      by blast
    have "written (?W2 (pre @ [i])) (- 1000) b0 b'"
      by (rule written_weaken [OF b'(2)]) auto
    with b'(1) show ?case by blast
  qed
  then obtain b2 where b2: "for_loop [0..h - 1]
       (\<lambda>i buf. do { buf \<leftarrow> wr buf (w * i) (- 1000); wr buf (w * i + w - 1) (- 1000) }) b1 = Some b2"
    "written (?W2 [0..h - 1]) (- 1000) b0 b2" by blast
  have "written (border_cells w h) (- 1000) b0 b2"
    by (rule written_weaken [OF b2(2)]) (auto simp: border_cells_def)
  with b1(1) b2(1) show ?thesis by blast
qed

lemma border_cells_iff:
  fixes w h :: int
  assumes "0 \<le> x" "x < w" "0 \<le> y" "y < h"
  shows "y * w + x \<in> border_cells w h \<longleftrightarrow> x = 0 \<or> x = w - 1 \<or> y = 0 \<or> y = h - 1"
proof
  assume "y * w + x \<in> border_cells w h"
  then consider i where "0 \<le> i" "i < w" "y * w + x = 0 * w + i"
    | i where "0 \<le> i" "i < w" "y * w + x = (h - 1) * w + i"
    | i where "0 \<le> i" "i < h" "y * w + x = i * w + 0"
    | i where "0 \<le> i" "i < h" "y * w + x = i * w + (w - 1)"
    by (auto simp: border_cells_def mult.commute)
  then show "x = 0 \<or> x = w - 1 \<or> y = 0 \<or> y = h - 1"
  proof cases
    case 1
    from cell_index_unique [OF assms(1,2) 1(1,2,3)] show ?thesis by simp
  next
    case 2
    from cell_index_unique [OF assms(1,2) 2(1,2,3)] show ?thesis by simp
  next
    case 3
    from cell_index_unique [OF assms(1,2) _ _ 3(3)] assms show ?thesis by simp
  next
    case 4
    from cell_index_unique [OF assms(1,2) _ _ 4(3)] assms show ?thesis by simp
  qed
next
  assume a: "x = 0 \<or> x = w - 1 \<or> y = 0 \<or> y = h - 1"
  have "y * w + x \<in> {i. 0 \<le> i \<and> i < w} \<or>
        y * w + x \<in> {(h - 1) * w + i | i. 0 \<le> i \<and> i < w} \<or>
        y * w + x \<in> {w * i | i. 0 \<le> i \<and> i < h} \<or>
        y * w + x \<in> {w * i + w - 1 | i. 0 \<le> i \<and> i < h}"
    using a assms by (auto simp: mult.commute)
  then show "y * w + x \<in> border_cells w h"
    unfolding border_cells_def by blast
qed

text \<open>The two nested loops of the local reset clear the window.\<close>

lemma window_loops:
  fixes w h :: int
  assumes "1 \<le> ix" "ax \<le> w - 2" "1 \<le> iy" "ay \<le> h - 2" "int (length b0) = w * h"
  shows "\<exists>b. for_loop [iy..ay - 1]
       (\<lambda>y buf. let pos = y * w in for_loop [ix..ax - 1] (\<lambda>x buf. wr buf (pos + x) 0) buf) b0
       = Some b \<and> written (window_cells w ix ax iy ay) 0 b0 b"
proof -
  let ?rows = "\<lambda>pre. {y * w + x | x y. ix \<le> x \<and> x < ax \<and> y \<in> set pre}"
  have "\<exists>b. for_loop [iy..ay - 1]
       (\<lambda>y buf. let pos = y * w in for_loop [ix..ax - 1] (\<lambda>x buf. wr buf (pos + x) 0) buf) b0
       = Some b \<and> written (?rows [iy..ay - 1]) 0 b0 b"
  proof (rule for_loop_rule, goal_cases)
    case 1
    show ?case by (simp add: written_def)
  next
    case (2 pre y s)
    then have y: "1 \<le> y" "y < h - 2" using assms by auto
    let ?row = "\<lambda>xs. ?rows pre \<union> {y * w + x | x. x \<in> set xs}"
    have "\<exists>b. for_loop [ix..ax - 1] (\<lambda>x buf. wr buf (y * w + x) 0) s = Some b
        \<and> written (?row [ix..ax - 1]) 0 b0 b"
    proof (rule for_loop_rule, goal_cases)
      case 1
      show ?case by (rule written_weaken [OF 2(1)]) auto
    next
      case (2 pre' x s')
      then have x: "1 \<le> x" "x < w - 2" using assms by auto
      have r: "0 \<le> y * w + x" "y * w + x < int (length b0)"
        using cell_index_range [of x w y h] x y assms by auto
      from written_wr [OF 2(1) r] obtain b' where
        b': "wr s' (y * w + x) 0 = Some b'" "written (insert (y * w + x) (?row pre')) 0 b0 b'"
        by blast
      have "written (?row (pre' @ [x])) 0 b0 b'"
        by (rule written_weaken [OF b'(2)]) auto
      with b'(1) show ?case by blast
    qed
    then obtain b where b: "for_loop [ix..ax - 1] (\<lambda>x buf. wr buf (y * w + x) 0) s = Some b"
      "written (?row [ix..ax - 1]) 0 b0 b" by blast
    have "written (?rows (pre @ [y])) 0 b0 b"
      by (rule written_weaken [OF b(2)]) auto
    with b(1) show ?case by (simp add: Let_def)
  qed
  then obtain b where b: "for_loop [iy..ay - 1]
       (\<lambda>y buf. let pos = y * w in for_loop [ix..ax - 1] (\<lambda>x buf. wr buf (pos + x) 0) buf) b0
       = Some b" "written (?rows [iy..ay - 1]) 0 b0 b" by blast
  have "written (window_cells w ix ax iy ay) 0 b0 b"
    by (rule written_weaken [OF b(2)]) (auto simp: window_cells_def)
  with b(1) show ?thesis by blast
qed

lemma window_cells_iff:
  fixes w :: int
  assumes "0 \<le> x" "x < w" "1 \<le> ix" "ax \<le> w - 2"
  shows "y * w + x \<in> window_cells w ix ax iy ay \<longleftrightarrow> ix \<le> x \<and> x < ax \<and> iy \<le> y \<and> y < ay"
proof
  assume "y * w + x \<in> window_cells w ix ax iy ay"
  then obtain x' y' where c: "y * w + x = y' * w + x'" "ix \<le> x'" "x' < ax" "iy \<le> y'" "y' < ay"
    by (auto simp: window_cells_def)
  have "0 \<le> x'" "x' < w" using c assms by auto
  from cell_index_unique [OF assms(1,2) this c(1)] c
  show "ix \<le> x \<and> x < ax \<and> iy \<le> y \<and> y < ay" by simp
next
  assume "ix \<le> x \<and> x < ax \<and> iy \<le> y \<and> y < ay"
  then show "y * w + x \<in> window_cells w ix ax iy ay"
    unfolding window_cells_def by blast
qed

text \<open>
  C8. For a detector whose label buffer has \<open>len = width * height\<close> cells, with positive width
  and height: \<open>bufferCleanup\<close> returns, changes nothing but the label buffer, and leaves in the
  cell of the pixel \<open>(x, y)\<close>
  \<^item> -1000 on the one-pixel border and 0 elsewhere, when the segment is not valid, tracking is
    off or the last track failed;
  \<^item> otherwise 0 if \<open>max(minx-2,1) \<le> x < min(maxx+2,width-2)\<close> and
    \<open>max(miny-2,1) \<le> y < min(maxy+2,height-2)\<close>, and what it held before if not.
\<close>

theorem bufferCleanup_policy:
  assumes "0 < width cfg" "0 < height cfg" "len cfg = width cfg * height cfg"
    and "int (length (buffer st)) = len cfg"
  shows "\<exists>buf. bufferCleanup cfg init st = Some (st\<lparr>buffer := buf\<rparr>) \<and>
     length buf = length (buffer st) \<and>
     (\<forall>x y. 0 \<le> x \<and> x < width cfg \<and> 0 \<le> y \<and> y < height cfg \<longrightarrow>
        buf ! nat (y * width cfg + x) =
          (if \<not> s_valid init \<or> \<not> track cfg \<or> \<not> lastTrackOK st
           then (if x = 0 \<or> x = width cfg - 1 \<or> y = 0 \<or> y = height cfg - 1 then - 1000 else 0)
           else (if max (s_minx init - 2) 1 \<le> x \<and> x < min (s_maxx init + 2) (width cfg - 2) \<and>
                    max (s_miny init - 2) 1 \<le> y \<and> y < min (s_maxy init + 2) (height cfg - 2)
                 then 0 else buffer st ! nat (y * width cfg + x))))"
proof (cases "\<not> s_valid init \<or> \<not> track cfg \<or> \<not> lastTrackOK st")
  case True
  let ?b0 = "replicate (length (buffer st)) (0::int)"
  have m: "memset0 (buffer st) (len cfg) = Some ?b0"
    using assms(4) by (auto simp: memset0_def)
  have "int (length ?b0) = width cfg * height cfg" using assms by simp
  from border_loops [OF assms(1,2) this] obtain b1 b2 where b:
    "for_loop [0..width cfg - 1]
       (\<lambda>i buf. do { buf \<leftarrow> wr buf i (- 1000);
                     wr buf ((height cfg - 1) * width cfg + i) (- 1000) }) ?b0 = Some b1"
    "for_loop [0..height cfg - 1]
       (\<lambda>i buf. do { buf \<leftarrow> wr buf (width cfg * i) (- 1000);
                     wr buf (width cfg * i + width cfg - 1) (- 1000) }) b1 = Some b2"
    "written (border_cells (width cfg) (height cfg)) (- 1000) ?b0 b2"
    by blast
  have c: "bufferCleanup cfg init st = Some (st\<lparr>buffer := b2\<rparr>)"
    using True m b(1,2) by (simp add: bufferCleanup_def Let_def)
  have l: "length b2 = length (buffer st)" using b(3) by (simp add: written_def)
  have "buf_ok"
    if "0 \<le> x \<and> x < width cfg \<and> 0 \<le> y \<and> y < height cfg"
      and "buf_ok = (b2 ! nat (y * width cfg + x) =
        (if x = 0 \<or> x = width cfg - 1 \<or> y = 0 \<or> y = height cfg - 1 then - 1000 else 0))"
    for x y buf_ok
  proof -
    from that(1) have xy: "0 \<le> x" "x < width cfg" "0 \<le> y" "y < height cfg" by auto
    from cell_index_range [OF xy] assms
    have r: "0 \<le> y * width cfg + x" "nat (y * width cfg + x) < length (buffer st)" by auto
    from b(3) r have "b2 ! nat (y * width cfg + x) =
        (if y * width cfg + x \<in> border_cells (width cfg) (height cfg) then - 1000 else 0)"
      by (simp add: written_def)
    then show ?thesis
      unfolding that(2) border_cells_iff [OF xy] by simp
  qed
  then have "\<forall>x y. 0 \<le> x \<and> x < width cfg \<and> 0 \<le> y \<and> y < height cfg \<longrightarrow>
      b2 ! nat (y * width cfg + x) =
        (if x = 0 \<or> x = width cfg - 1 \<or> y = 0 \<or> y = height cfg - 1 then - 1000 else 0)"
    by blast
  then have "\<forall>x y. 0 \<le> x \<and> x < width cfg \<and> 0 \<le> y \<and> y < height cfg \<longrightarrow>
        b2 ! nat (y * width cfg + x) =
          (if \<not> s_valid init \<or> \<not> track cfg \<or> \<not> lastTrackOK st
           then (if x = 0 \<or> x = width cfg - 1 \<or> y = 0 \<or> y = height cfg - 1 then - 1000 else 0)
           else (if max (s_minx init - 2) 1 \<le> x \<and> x < min (s_maxx init + 2) (width cfg - 2) \<and>
                    max (s_miny init - 2) 1 \<le> y \<and> y < min (s_maxy init + 2) (height cfg - 2)
                 then 0 else buffer st ! nat (y * width cfg + x)))"
    unfolding if_P [OF True] .
  with c l show ?thesis by blast
next
  case False
  let ?ix = "max (s_minx init - 2) 1" and ?ax = "min (s_maxx init + 2) (width cfg - 2)"
  let ?iy = "max (s_miny init - 2) 1" and ?ay = "min (s_maxy init + 2) (height cfg - 2)"
  have "int (length (buffer st)) = width cfg * height cfg" using assms by simp
  from window_loops [OF _ _ _ _ this, of ?ix ?ax ?iy ?ay] obtain b where b:
    "for_loop [?iy..?ay - 1]
       (\<lambda>y buf. let pos = y * width cfg in
          for_loop [?ix..?ax - 1] (\<lambda>x buf. wr buf (pos + x) 0) buf) (buffer st) = Some b"
    "written (window_cells (width cfg) ?ix ?ax ?iy ?ay) 0 (buffer st) b"
    by auto
  have c: "bufferCleanup cfg init st = Some (st\<lparr>buffer := b\<rparr>)"
    using False b(1) by (simp add: bufferCleanup_def Let_def)
  have l: "length b = length (buffer st)" using b(2) by (simp add: written_def)
  have "buf_ok"
    if "0 \<le> x \<and> x < width cfg \<and> 0 \<le> y \<and> y < height cfg"
      and "buf_ok = (b ! nat (y * width cfg + x) =
        (if ?ix \<le> x \<and> x < ?ax \<and> ?iy \<le> y \<and> y < ?ay then 0
         else buffer st ! nat (y * width cfg + x)))"
    for x y buf_ok
  proof -
    from that(1) have xy: "0 \<le> x" "x < width cfg" "0 \<le> y" "y < height cfg" by auto
    from cell_index_range [OF xy] assms
    have r: "0 \<le> y * width cfg + x" "nat (y * width cfg + x) < length (buffer st)" by auto
    from b(2) r have "b ! nat (y * width cfg + x) =
        (if y * width cfg + x \<in> window_cells (width cfg) ?ix ?ax ?iy ?ay then 0
         else buffer st ! nat (y * width cfg + x))"
      by (simp add: written_def)
    moreover have "y * width cfg + x \<in> window_cells (width cfg) ?ix ?ax ?iy ?ay
        \<longleftrightarrow> ?ix \<le> x \<and> x < ?ax \<and> ?iy \<le> y \<and> y < ?ay"
      by (rule window_cells_iff [OF xy(1,2)]) auto
    ultimately show ?thesis unfolding that(2) by simp
  qed
  then have "\<forall>x y. 0 \<le> x \<and> x < width cfg \<and> 0 \<le> y \<and> y < height cfg \<longrightarrow>
      b ! nat (y * width cfg + x) =
        (if ?ix \<le> x \<and> x < ?ax \<and> ?iy \<le> y \<and> y < ?ay then 0
         else buffer st ! nat (y * width cfg + x))"
    by blast
  then have "\<forall>x y. 0 \<le> x \<and> x < width cfg \<and> 0 \<le> y \<and> y < height cfg \<longrightarrow>
        b ! nat (y * width cfg + x) =
          (if \<not> s_valid init \<or> \<not> track cfg \<or> \<not> lastTrackOK st
           then (if x = 0 \<or> x = width cfg - 1 \<or> y = 0 \<or> y = height cfg - 1 then - 1000 else 0)
           else (if max (s_minx init - 2) 1 \<le> x \<and> x < min (s_maxx init + 2) (width cfg - 2) \<and>
                    max (s_miny init - 2) 1 \<le> y \<and> y < min (s_maxy init + 2) (height cfg - 2)
                 then 0 else buffer st ! nat (y * width cfg + x)))"
    unfolding if_not_P [OF False] .
  with c l show ?thesis by blast
qed

lemma cfg_tiny_fields:
  "width cfg_tiny = 1" "height cfg_tiny = 1" "len cfg_tiny = 1" "maxFailed cfg_tiny = 0"
  "track cfg_tiny" "\<not> debug cfg_tiny" "\<not> draw cfg_tiny"
  by (simp_all add: cfg_tiny_def CCircleDetect_config_def)

lemma cfg_w_fields:
  "width cfg_w = 6" "height cfg_w = 6" "len cfg_w = 36" "track cfg_w"
  by (simp_all add: cfg_w_def CCircleDetect_config_def)

theorem bufferCleanup_policy_witness:
  "0 < width cfg_w \<and> 0 < height cfg_w \<and> len cfg_w = width cfg_w * height cfg_w \<and>
   int (length (buffer det_w)) = len cfg_w \<and>
   \<not> s_valid seg0 \<and> s_valid seg_w \<and> track cfg_w \<and> lastTrackOK det_w \<and>
   (\<exists>buf. bufferCleanup cfg_w seg0 det_w = Some (det_w\<lparr>buffer := buf\<rparr>) \<and>
      length buf = 36 \<and>
      buf ! 0 = - 1000 \<and> buf ! 3 = - 1000 \<and> buf ! 5 = - 1000 \<and> buf ! 12 = - 1000 \<and>
      buf ! 17 = - 1000 \<and> buf ! 30 = - 1000 \<and> buf ! 33 = - 1000 \<and> buf ! 35 = - 1000 \<and>
      buf ! 7 = 0 \<and> buf ! 10 = 0 \<and> buf ! 14 = 0 \<and> buf ! 21 = 0 \<and> buf ! 25 = 0 \<and> buf ! 28 = 0) \<and>
   (\<exists>buf. bufferCleanup cfg_w seg_w det_w = Some (det_w\<lparr>buffer := buf\<rparr>) \<and>
      length buf = 36 \<and>
      buf ! 7 = 0 \<and> buf ! 8 = 0 \<and> buf ! 9 = 0 \<and> buf ! 13 = 0 \<and> buf ! 14 = 0 \<and> buf ! 15 = 0 \<and>
      buf ! 19 = 0 \<and> buf ! 20 = 0 \<and> buf ! 21 = 0 \<and>
      buf ! 10 = 7 \<and> buf ! 16 = 7 \<and> buf ! 22 = 7 \<and> buf ! 25 = 7 \<and> buf ! 26 = 7 \<and> buf ! 27 = 7 \<and>
      buf ! 28 = 7 \<and>
      buf ! 0 = 7 \<and> buf ! 3 = 7 \<and> buf ! 6 = 7 \<and> buf ! 11 = 7 \<and> buf ! 18 = 7 \<and> buf ! 35 = 7)"
proof -
  have h: "0 < width cfg_w" "0 < height cfg_w" "len cfg_w = width cfg_w * height cfg_w"
    "int (length (buffer det_w)) = len cfg_w"
    by (simp_all add: cfg_w_fields det_w_def)
  have v: "\<not> s_valid seg0" "s_valid seg_w" "track cfg_w" "lastTrackOK det_w"
    by (simp_all add: seg0_def seg_w_def cfg_w_fields det_w_def)
  have old: "\<And>i. i < 36 \<Longrightarrow> buffer det_w ! i = 7" by (simp add: det_w_def)
  from bufferCleanup_policy [OF h, of seg0] obtain b1 where b1:
    "bufferCleanup cfg_w seg0 det_w = Some (det_w\<lparr>buffer := b1\<rparr>)"
    "length b1 = length (buffer det_w)"
    "\<And>x y. 0 \<le> x \<and> x < 6 \<and> 0 \<le> y \<and> y < 6 \<Longrightarrow>
        b1 ! nat (y * 6 + x) = (if x = 0 \<or> x = 5 \<or> y = 0 \<or> y = 5 then - 1000 else 0)"
    using v by (auto simp: cfg_w_fields)
  from bufferCleanup_policy [OF h, of seg_w] obtain b2 where b2:
    "bufferCleanup cfg_w seg_w det_w = Some (det_w\<lparr>buffer := b2\<rparr>)"
    "length b2 = length (buffer det_w)"
    "\<And>x y. 0 \<le> x \<and> x < 6 \<and> 0 \<le> y \<and> y < 6 \<Longrightarrow>
        b2 ! nat (y * 6 + x) =
          (if 1 \<le> x \<and> x < 4 \<and> 1 \<le> y \<and> y < 4 then 0 else buffer det_w ! nat (y * 6 + x))"
    using v by (auto simp: cfg_w_fields seg_w_def seg0_def)
  have l: "length b1 = 36" "length b2 = 36" using b1(2) b2(2) by (simp_all add: det_w_def)
  have f: "b1 ! 0 = - 1000" "b1 ! 3 = - 1000" "b1 ! 5 = - 1000" "b1 ! 12 = - 1000"
    "b1 ! 17 = - 1000" "b1 ! 30 = - 1000" "b1 ! 33 = - 1000" "b1 ! 35 = - 1000"
    "b1 ! 7 = 0" "b1 ! 10 = 0" "b1 ! 14 = 0" "b1 ! 21 = 0" "b1 ! 25 = 0" "b1 ! 28 = 0"
    using b1(3) [of 0 0] b1(3) [of 3 0] b1(3) [of 5 0] b1(3) [of 0 2] b1(3) [of 5 2]
      b1(3) [of 0 5] b1(3) [of 3 5] b1(3) [of 5 5]
      b1(3) [of 1 1] b1(3) [of 4 1] b1(3) [of 2 2] b1(3) [of 3 3] b1(3) [of 1 4] b1(3) [of 4 4]
    by simp_all
  have g: "b2 ! 7 = 0" "b2 ! 8 = 0" "b2 ! 9 = 0" "b2 ! 13 = 0" "b2 ! 14 = 0" "b2 ! 15 = 0"
    "b2 ! 19 = 0" "b2 ! 20 = 0" "b2 ! 21 = 0"
    "b2 ! 10 = 7" "b2 ! 16 = 7" "b2 ! 22 = 7" "b2 ! 25 = 7" "b2 ! 26 = 7" "b2 ! 27 = 7" "b2 ! 28 = 7"
    "b2 ! 0 = 7" "b2 ! 3 = 7" "b2 ! 6 = 7" "b2 ! 11 = 7" "b2 ! 18 = 7" "b2 ! 35 = 7"
    using b2(3) [of 1 1] b2(3) [of 2 1] b2(3) [of 3 1] b2(3) [of 1 2] b2(3) [of 2 2] b2(3) [of 3 2]
      b2(3) [of 1 3] b2(3) [of 2 3] b2(3) [of 3 3]
      b2(3) [of 4 1] b2(3) [of 4 2] b2(3) [of 4 3] b2(3) [of 1 4] b2(3) [of 2 4] b2(3) [of 3 4]
      b2(3) [of 4 4]
      b2(3) [of 0 0] b2(3) [of 3 0] b2(3) [of 0 1] b2(3) [of 5 1] b2(3) [of 0 3] b2(3) [of 5 5]
    by (simp_all add: old)
  from h v b1(1) b2(1) l f g show ?thesis by blast
qed

subsection \<open>Rejection of a pair by the ratio of the areas\<close>

lemma rd_Some_iff: "rd xs i = Some v \<longleftrightarrow> 0 \<le> i \<and> i < int (length xs) \<and> v = xs ! nat i"
  by (auto simp: rd_def)

text \<open>
  After the outer and the inner segment were examined one after the other, the last two
  slots hold them, neither is valid, and each carries the flag that its call returned.
\<close>

lemma examined_pair:
  assumes o: "examineSegment cfg img (numSegments st) ii a st = Some (r1, stb)"
    and i: "examineSegment cfg img (numSegments stb) pos a' (stb\<lparr>buffer := buf'\<rparr>) = Some (r2, std)"
  obtains outer inner where
    "rd (segmentArray std) (numSegments std - 2) = Some outer"
    "rd (segmentArray std) (numSegments std - 1) = Some inner"
    "\<not> s_valid outer" "\<not> s_valid inner" "s_round outer = r1" "s_round inner = r2"
    "r1 \<longrightarrow> minSize cfg < s_size outer" "r2 \<longrightarrow> minSize cfg < s_size inner"
    "numSegments std = numSegments st + 2"
    "segmentArray std = (segmentArray st)[nat (numSegments st) := outer,
                                          nat (numSegments st + 1) := inner]"
    "s_size outer = queueEnd stb - queueStart st" "threshold std = threshold st"
    "numSegments st + 1 < int (length (segmentArray st))"
    "s_size inner = queueEnd std - queueStart stb"
proof -
  let ?k = "numSegments st"
  note fo = examineSegment_facts [OF o]
  note fi = examineSegment_facts [OF i, simplified]
  from fo(10) obtain so where so: "segmentArray stb = (segmentArray st)[nat ?k := so]"
    "\<not> s_valid so" "s_round so = r1" "r1 \<longrightarrow> minSize cfg < s_size so"
    "s_size so = queueEnd stb - queueStart st" by blast
  from fi(10) obtain si where si: "segmentArray std = (segmentArray stb)[nat (numSegments stb) := si]"
    "\<not> s_valid si" "s_round si = r2" "r2 \<longrightarrow> minSize cfg < s_size si"
    "s_size si = queueEnd std - queueStart stb" by auto
  have n: "numSegments stb = ?k + 1" "numSegments std = ?k + 2" using fo(6) fi(6) by simp_all
  have k: "0 \<le> ?k" "?k < int (length (segmentArray st))" "?k + 1 < int (length (segmentArray st))"
    using fo(8,9) fi(9) by (simp_all add: n so)
  have a: "nat (?k + 1) \<noteq> nat ?k" "nat (?k + 1) < length (segmentArray st)"
    "nat ?k < length (segmentArray st)"
    using k by linarith+
  have e: "segmentArray std = (segmentArray st)[nat ?k := so, nat (?k + 1) := si]"
    by (simp only: si so n)
  have "segmentArray std ! nat (?k + 1) = si"
    unfolding e using a by (simp only: nth_list_update_eq length_list_update)
  moreover have "segmentArray std ! nat ?k = so"
    unfolding e using a by (simp add: nth_list_update)
  moreover have "numSegments std - 2 = ?k" "numSegments std - 1 = ?k + 1"
    using n by simp_all
  moreover have "length (segmentArray std) = length (segmentArray st)"
    unfolding e by simp
  ultimately have "rd (segmentArray std) (numSegments std - 2) = Some so"
    "rd (segmentArray std) (numSegments std - 1) = Some si"
    using k by (simp_all add: rd_Some_iff add.commute)
  moreover have "threshold std = threshold st" using fo(1) fi(1) by simp
  ultimately show ?thesis using so si n e k by (intro that [of so si]) auto
qed

text \<open>
  C7. Let the outer segment and then the inner one be examined, both calls returning true
  (both passed the roundness test), and let \<open>outer.size / (areasRatio * inner.size)\<close> differ
  from 1 by more than \<open>ratioTolerance\<close>. Then the matching step returns the detector and the
  scan index exactly as it found them (no centroid, covariance, eigenvalue or leakage
  computation is stored, and the scan goes on with the next index), and neither segment
  is valid.
\<close>

theorem ratio_rejection:
  assumes "examineSegment cfg img (numSegments st) ii (outerAreaRatio cfg) st = Some (True, stb)"
    and "examineSegment cfg img (numSegments stb) pos (innerAreaRatio cfg) (stb\<lparr>buffer := buf'\<rparr>)
           = Some (True, std)"
    and "\<forall>outer inner.
           rd (segmentArray std) (numSegments std - 2) = Some outer \<longrightarrow>
           rd (segmentArray std) (numSegments std - 1) = Some inner \<longrightarrow>
           \<bar>real_of_int (s_size outer) / (areasRatio cfg * real_of_int (s_size inner)) - 1\<bar>
             > ratioTolerance cfg"
  shows "match_pair cfg img start (std, ii) = Some (std, ii) \<and>
         (\<exists>outer inner.
            rd (segmentArray std) (numSegments std - 2) = Some outer \<and>
            rd (segmentArray std) (numSegments std - 1) = Some inner \<and>
            s_round outer \<and> s_round inner \<and> \<not> s_valid outer \<and> \<not> s_valid inner)"
proof -
  from assms(1,2) obtain outer inner where p:
    "rd (segmentArray std) (numSegments std - 2) = Some outer"
    "rd (segmentArray std) (numSegments std - 1) = Some inner"
    "\<not> s_valid outer" "\<not> s_valid inner" "s_round outer = True" "s_round inner = True"
    by (rule examined_pair)
  from assms(3) p(1,2)
  have "\<bar>real_of_int (s_size outer) / (areasRatio cfg * real_of_int (s_size inner)) - 1\<bar>
      > ratioTolerance cfg" by blast
  then have "\<not> pair_test cfg outer inner"
    by (auto simp: pair_test_def)
  then have "match_pair cfg img start (std, ii) = Some (std, ii)"
    using p(1,2) by (simp add: match_pair_def)
  with p show ?thesis by auto
qed


subsection \<open>The pixel leakage correction\<close>

lemma leak_discriminant:
  fixes r A B s :: real
  shows "(- (s * A + s * B) - (A + B) * r) * (- (s * A + s * B) - (A + B) * r)
           - 4 * (1 - r) * ((s * A) * (s * B) - (A * B) * r)
         = (s + r) * (s + r) * ((A - B) * (A - B)) + 4 * (A * B) * (r * ((1 + s) * (1 + s)))"
  by (simp add: algebra_simps)

lemma quadratic_smaller_root:
  fixes a b c :: real
  assumes "0 < a" "0 \<le> b * b - 4 * a * c"
  defines "t \<equiv> (- b - sqrt (b * b - 4 * a * c)) / (2 * a)"
  shows "a * t\<^sup>2 + b * t + c = 0" and "a * u\<^sup>2 + b * u + c = 0 \<Longrightarrow> t \<le> u"
proof -
  let ?D = "b * b - 4 * a * c"
  have sq: "sqrt ?D * sqrt ?D = ?D" using assms(2) by simp
  have t2: "2 * a * t + b = - sqrt ?D" using assms(1) by (simp add: t_def field_simps)
  have "(2 * a * t + b) * (2 * a * t + b) = ?D" unfolding t2 using sq by simp
  then have "4 * a * (a * t\<^sup>2 + b * t + c) = 0"
    by (simp add: algebra_simps power2_eq_square)
  then show "a * t\<^sup>2 + b * t + c = 0" using assms(1) by simp
  assume e: "a * u\<^sup>2 + b * u + c = 0"
  have "(2 * a * u + b) * (2 * a * u + b) - ?D = 4 * a * (a * u\<^sup>2 + b * u + c)"
    by (simp add: algebra_simps power2_eq_square)
  then have "(2 * a * u + b) * (2 * a * u + b) = ?D"
    unfolding e by simp
  then have "(2 * a * u + b)\<^sup>2 = (sqrt ?D)\<^sup>2"
    using sq by (simp add: power2_eq_square)
  then have "\<bar>2 * a * u + b\<bar> = \<bar>sqrt ?D\<bar>" by (simp only: power2_eq_iff abs_eq_iff)
  then have "- sqrt ?D \<le> 2 * a * u + b" using assms(2) by (simp add: abs_if split: if_splits)
  with t2 have "2 * a * t \<le> 2 * a * u" by simp
  with assms(1) show "t \<le> u" by simp
qed

text \<open>
  With \<open>0 < diameterRatio < 1\<close>, non-negative eigenvalues and at least one inner pixel, the
  term \<open>t\<close> of the correction is a root of its quadratic, and the smaller one.
\<close>

lemma leak_t_root:
  assumes "0 < dr" "dr < 1" "0 \<le> f0" "0 \<le> f1" "0 < size_inner" "0 \<le> size_outer"
  defines "r \<equiv> dr * dr"
    and "ratio \<equiv> real_of_int size_inner / real_of_int (size_outer + size_inner)"
  defines "m0i \<equiv> sqrt ratio * sqrt f0" and "m1i \<equiv> sqrt ratio * sqrt f1"
    and "t \<equiv> leak_t r (sqrt f0) (sqrt f1) ratio"
  shows "(1 - r) * t\<^sup>2 + (- (m0i + m1i) - (sqrt f0 + sqrt f1) * r) * t
            + (m0i * m1i - sqrt f0 * sqrt f1 * r) = 0"
    and "(1 - r) * u\<^sup>2 + (- (m0i + m1i) - (sqrt f0 + sqrt f1) * r) * u
            + (m0i * m1i - sqrt f0 * sqrt f1 * r) = 0 \<Longrightarrow> t \<le> u"
    and "real_of_int size_inner = r * real_of_int (size_outer + size_inner) \<Longrightarrow> t = 0"
proof -
  let ?A = "sqrt f0" and ?B = "sqrt f1" and ?s = "sqrt ratio"
  let ?a = "1 - r" and ?b = "- (m0i + m1i) - (?A + ?B) * r" and ?c = "m0i * m1i - ?A * ?B * r"
  have "dr * dr < 1 * 1"
    using assms(1,2) by (intro mult_strict_mono) auto
  then have r: "0 < r" "r < 1"
    using assms(1) by (simp_all add: r_def)
  have ratio: "0 \<le> ratio" using assms(5,6) by (simp add: ratio_def)
  have AB: "0 \<le> ?A" "0 \<le> ?B" "0 \<le> ?s" using assms(3,4) ratio by simp_all
  have D: "?b * ?b - 4 * ?a * ?c
      = (?s + r) * (?s + r) * ((?A - ?B) * (?A - ?B)) + 4 * (?A * ?B) * (r * ((1 + ?s) * (1 + ?s)))"
    unfolding m0i_def m1i_def using leak_discriminant [of ?s ?A ?B r]
    by (simp add: algebra_simps)
  have "0 \<le> (?s + r) * (?s + r) * ((?A - ?B) * (?A - ?B))"
    by (intro mult_nonneg_nonneg zero_le_square)
  moreover have "0 \<le> 4 * (?A * ?B) * (r * ((1 + ?s) * (1 + ?s)))"
    using AB r by (intro mult_nonneg_nonneg zero_le_square) simp_all
  ultimately have D0: "0 \<le> ?b * ?b - 4 * ?a * ?c"
    unfolding D by (rule add_nonneg_nonneg)
  have t: "t = (- ?b - sqrt (?b * ?b - 4 * ?a * ?c)) / (2 * ?a)"
    by (simp add: t_def leak_t_def Let_def m0i_def m1i_def)
  have a0: "0 < ?a" using r by simp
  note q = quadratic_smaller_root [OF a0 D0, folded t]
  show "?a * t\<^sup>2 + ?b * t + ?c = 0" by (rule q(1))
  show "?a * u\<^sup>2 + ?b * u + ?c = 0 \<Longrightarrow> t \<le> u" by (rule q(2))
  show "t = 0" if e: "real_of_int size_inner = r * real_of_int (size_outer + size_inner)"
  proof -
    have "0 < real_of_int (size_outer + size_inner)" using assms(5,6) by simp
    then have "ratio = r" unfolding ratio_def e by simp
    then have ss: "?s * ?s = r" using r by simp
    have "?c = (?s * ?s - r) * (?A * ?B)" by (simp add: m0i_def m1i_def algebra_simps)
    then have c0: "?c = 0" using ss by simp
    have "0 \<le> m0i" "0 \<le> m1i" "0 \<le> (?A + ?B) * r"
      using AB r by (simp_all add: m0i_def m1i_def)
    then have b0: "?b \<le> 0" by linarith
    have "sqrt (?b * ?b - 4 * ?a * ?c) = \<bar>?b\<bar>" unfolding c0 by simp
    then show "t = 0" unfolding t using b0 by simp
  qed
qed

lemma corrected_axes_exact:
  assumes "0 < dr" "dr < 1" "0 \<le> f0" "0 \<le> f1" "0 < size_inner" "0 \<le> size_outer"
    and "real_of_int size_inner = dr * dr * real_of_int (size_outer + size_inner)"
  shows "corrected_axes dr f0 f1 size_outer size_inner = (sqrt f0, sqrt f1)"
  using leak_t_root(3) [OF assms]
  by (simp add: corrected_axes_def Let_def)

subsection \<open>The flags debug and draw\<close>

lemma flags_sel:
  "width (cfg\<lparr>debug := d, draw := w\<rparr>) = width cfg"
  "height (cfg\<lparr>debug := d, draw := w\<rparr>) = height cfg"
  "len (cfg\<lparr>debug := d, draw := w\<rparr>) = len cfg"
  "MAX_SEGMENTS (cfg\<lparr>debug := d, draw := w\<rparr>) = MAX_SEGMENTS cfg"
  "minSize (cfg\<lparr>debug := d, draw := w\<rparr>) = minSize cfg"
  "maxFailed (cfg\<lparr>debug := d, draw := w\<rparr>) = maxFailed cfg"
  "diameterRatio (cfg\<lparr>debug := d, draw := w\<rparr>) = diameterRatio cfg"
  "outerAreaRatio (cfg\<lparr>debug := d, draw := w\<rparr>) = outerAreaRatio cfg"
  "innerAreaRatio (cfg\<lparr>debug := d, draw := w\<rparr>) = innerAreaRatio cfg"
  "track (cfg\<lparr>debug := d, draw := w\<rparr>) = track cfg"
  by simp_all

lemma floodFill_flags:
  "floodFill (cfg\<lparr>debug := d, draw := w\<rparr>) img type s = floodFill cfg img type s"
proof (induction cfg img type s rule: floodFill.induct)
  case (1 cfg img type s)
  have f: "flood_step (cfg\<lparr>debug := d, draw := w\<rparr>) img type s = flood_step cfg img type s"
    unfolding flood_step_def flags_sel by (rule refl)
  show ?case
  proof (cases "queueEnd (fst s) > queueStart (fst s)")
    case False
    then show ?thesis
      by (simp add: floodFill.simps [of _ img type s])
  next
    case True
    show ?thesis
    proof (cases "flood_step cfg img type s")
      case None
      with True f show ?thesis by (simp add: floodFill.simps [of _ img type s])
    next
      case (Some s')
      from "1.IH" [OF True Some] True f Some show ?thesis
        by (simp add: floodFill.simps [of _ img type s])
    qed
  qed
qed

lemma round_test_flags: "round_test (cfg\<lparr>debug := d, draw := w\<rparr>) = round_test cfg"
  by (simp add: round_test_def fun_eq_iff)

lemma circularity_test_flags:
  "circularity_test (cfg\<lparr>debug := d, draw := w\<rparr>) = circularity_test cfg"
  by (simp add: circularity_test_def fun_eq_iff)

lemma segment_props_flags:
  "segment_props (cfg\<lparr>debug := d, draw := w\<rparr>) img type a segmen s
     = segment_props cfg img type a segmen s"
  unfolding segment_props_def round_test_flags flags_sel by (rule refl)

lemma examineSegment_flags:
  "examineSegment (cfg\<lparr>debug := d, draw := w\<rparr>) img k ii a st = examineSegment cfg img k ii a st"
  unfolding examineSegment_def floodFill_flags segment_props_flags flags_sel by (rule refl)

lemma ellipse_fit_flags:
  "ellipse_fit (cfg\<lparr>debug := d, draw := w\<rparr>) wi st outer inner = ellipse_fit cfg wi st outer inner"
  unfolding ellipse_fit_def circularity_test_flags flags_sel by (rule refl)

lemma fit_pair_flags:
  "fit_pair (cfg\<lparr>debug := d, draw := w\<rparr>) img start s = fit_pair cfg img start s"
  unfolding fit_pair_def ellipse_fit_flags flags_sel by (rule refl)

lemma pair_test_flags:
  "pair_test (cfg\<lparr>debug := d, draw := w\<rparr>) outer inner = pair_test cfg outer inner"
  by (simp add: pair_test_def)

lemma match_pair_flags:
  "match_pair (cfg\<lparr>debug := d, draw := w\<rparr>) img start s = match_pair cfg img start s"
  unfolding match_pair_def fit_pair_flags pair_test_flags flags_sel by (rule refl)

lemma examine_inner_flags:
  "examine_inner (cfg\<lparr>debug := d, draw := w\<rparr>) img start s = examine_inner cfg img start s"
  unfolding examine_inner_def examineSegment_flags match_pair_flags flags_sel by (rule refl)

lemma examine_outer_flags:
  "examine_outer (cfg\<lparr>debug := d, draw := w\<rparr>) img start s = examine_outer cfg img start s"
  unfolding examine_outer_def examineSegment_flags examine_inner_flags flags_sel by (rule refl)

lemma scan_body_flags:
  "scan_body (cfg\<lparr>debug := d, draw := w\<rparr>) img start s = scan_body cfg img start s"
  unfolding scan_body_def examine_outer_flags flags_sel by (rule refl)

lemma scan_flags:
  "scan (cfg\<lparr>debug := d, draw := w\<rparr>) img start s = scan cfg img start s"
proof (induction cfg img start s rule: scan.induct)
  case (1 cfg img start s)
  have n: "\<And>i. scan_next (cfg\<lparr>debug := d, draw := w\<rparr>) i = scan_next cfg i"
    by (simp add: scan_next_def)
  show ?case
  proof (cases "0 \<le> snd s \<and> snd s < len cfg \<and> 0 \<le> start \<and> start < len cfg")
    case False
    then show ?thesis by (simp add: scan.simps [of _ img start s])
  next
    case g: True
    show ?thesis
    proof (cases "scan_body cfg img start s")
      case None
      then show ?thesis by (simp add: scan.simps [of _ img start s] scan_body_flags)
    next
      case (Some s')
      show ?thesis
      proof (cases "scan_next cfg (snd s') \<noteq> start")
        case True
        from "1.IH" [OF _ Some True] g Some True show ?thesis
          by (simp add: scan.simps [of _ img start s] scan_body_flags n)
      next
        case False
        with g Some show ?thesis
          by (simp add: scan.simps [of _ img start s] scan_body_flags n)
      qed
    qed
  qed
qed

lemma select_result_flags:
  "select_result (cfg\<lparr>debug := d, draw := w\<rparr>) st r = select_result cfg st r"
proof -
  have "(\<lambda>i result. do {
          seg \<leftarrow> rd (segmentArray st) i;
          Some (if s_size seg > minSize cfg \<and> (s_valid seg \<or> d)
                then (if s_valid seg then seg else result)
                else result)
        }) = (\<lambda>i result. do {
          seg \<leftarrow> rd (segmentArray st) i;
          Some (if s_size seg > minSize cfg \<and> (s_valid seg \<or> debug cfg)
                then (if s_valid seg then seg else result)
                else result)
        })"
    by (intro ext arg_cong2 [where f = Option.bind] refl) auto
  then show ?thesis by (simp add: select_result_def)
qed

lemma failure_update_flags:
  "(failure_update (cfg\<lparr>debug := d, draw := w\<rparr>) r st)\<lparr>drawAll := x\<rparr>
     = (failure_update cfg r st)\<lparr>drawAll := x\<rparr>"
  by (simp add: failure_update_def Let_def case_prod_beta)

lemma bufferCleanup_flags:
  assumes "buffer st2 = buffer st1" "lastTrackOK st2 = lastTrackOK st1"
  shows "map_option buffer (bufferCleanup (cfg\<lparr>debug := d, draw := w\<rparr>) r st2)
         = map_option buffer (bufferCleanup cfg r st1)"
  unfolding bufferCleanup_def Let_def flags_sel assms
  by (auto split: Option.bind_splits)

text \<open>
  C9. Two runs of \<open>findSegment\<close> on the same frame and the same detector, the second with
  other values of the flags \<open>debug\<close> and \<open>draw\<close>, that both return, return the same result
  and leave the same detector but for the member \<open>drawAll\<close>: in particular the same
  threshold, failure counter and label buffer. (The frames they leave may differ.)
\<close>

theorem flags_no_effect:
  assumes "findSegment cfg uninit img init st = Some (r1, img1, st1)"
    and "findSegment (cfg\<lparr>debug := d, draw := w\<rparr>) uninit img init st = Some (r2, img2, st2)"
  shows "r2 = r1 \<and> threshold st2 = threshold st1 \<and> numFailed st2 = numFailed st1 \<and>
         st2\<lparr>drawAll := drawAll st1\<rparr> = st1"
proof -
  let ?cfg' = "cfg\<lparr>debug := d, draw := w\<rparr>"
  from assms(1) obtain start stm ok where a:
    "start = (if s_valid init \<and> track cfg
              then trunc (real_of_int (trunc (s_y init) * getwidth img) + s_x init) else 0)"
    "scan cfg img start (st\<lparr>numSegments := 0\<rparr>, start) = Some stm"
    "select_result cfg stm (uninit\<lparr>s_x := 0, s_y := 0, s_round := False, s_valid := False\<rparr>)
       = Some r1"
    "track_ok stm = Some ok"
    "bufferCleanup cfg r1 (failure_update cfg r1 (stm\<lparr>lastTrackOK := ok\<rparr>)) = Some st1"
    by (rule findSegment_elim)
  from assms(2) obtain start' stm' ok' where b:
    "start' = (if s_valid init \<and> track ?cfg'
              then trunc (real_of_int (trunc (s_y init) * getwidth img) + s_x init) else 0)"
    "scan ?cfg' img start' (st\<lparr>numSegments := 0\<rparr>, start') = Some stm'"
    "select_result ?cfg' stm' (uninit\<lparr>s_x := 0, s_y := 0, s_round := False, s_valid := False\<rparr>)
       = Some r2"
    "track_ok stm' = Some ok'"
    "bufferCleanup ?cfg' r2 (failure_update ?cfg' r2 (stm'\<lparr>lastTrackOK := ok'\<rparr>)) = Some st2"
    by (rule findSegment_elim)
  have s: "start' = start" using a(1) b(1) by simp
  have m: "stm' = stm" using a(2) b(2) by (simp add: s scan_flags)
  have r: "r2 = r1" using a(3) b(3) by (simp add: m select_result_flags)
  have o: "ok' = ok" using a(4) b(4) by (simp add: m)
  let ?u1 = "failure_update cfg r1 (stm\<lparr>lastTrackOK := ok\<rparr>)"
  let ?u2 = "failure_update ?cfg' r1 (stm\<lparr>lastTrackOK := ok\<rparr>)"
  have u: "?u2\<lparr>drawAll := drawAll ?u1\<rparr> = ?u1"
    using failure_update_flags [where cfg=cfg and d=d and w=w and r=r1
        and st="stm\<lparr>lastTrackOK := ok\<rparr>" and x="drawAll ?u1"] by simp
  have ub: "buffer ?u2 = buffer ?u1" "lastTrackOK ?u2 = lastTrackOK ?u1"
    using arg_cong [OF u, of buffer] arg_cong [OF u, of lastTrackOK] by simp_all
  from a(5) obtain b1 where b1: "st1 = ?u1\<lparr>buffer := b1\<rparr>" by (rule bufferCleanup_elim)
  from b(5) obtain b2 where b2: "st2 = ?u2\<lparr>buffer := b2\<rparr>"
    unfolding r m o by (rule bufferCleanup_elim)
  from bufferCleanup_flags [OF ub, where cfg=cfg and d=d and w=w and r=r1] a(5) b(5)
  have "b2 = b1" by (simp add: r m o b1 b2)
  moreover have "(?u2\<lparr>buffer := b1\<rparr>)\<lparr>drawAll := drawAll ?u1\<rparr>
      = (?u2\<lparr>drawAll := drawAll ?u1\<rparr>)\<lparr>buffer := b1\<rparr>"
    by (cases ?u2) simp
  ultimately have e: "st2\<lparr>drawAll := drawAll st1\<rparr> = st1"
    by (simp add: b1 b2 u)
  have "threshold st2 = threshold st1" "numFailed st2 = numFailed st1"
    using arg_cong [OF e, of threshold] arg_cong [OF e, of numFailed]
    by simp_all
  with r e show ?thesis by simp
qed

lemma findSegment_tiny_flags:
  "findSegment (cfg_tiny\<lparr>debug := True, draw := True\<rparr>) seg0 img_tiny seg0 det_tiny
     = Some (seg0, img_tiny, det_tiny\<lparr>threshold := 24, numFailed := 0, drawAll := True\<rparr>)"
  by (simp add: findSegment_def cfg_tiny_def CCircleDetect_config_def Let_def seg0_def
      det_tiny_def det0_def img_tiny_def scan.simps scan_body_def mark_dark_def rd_def
      scan_next_def select_result_def track_ok_def failure_update_def blank_last_def
      draw_segments_def bufferCleanup_def memset0_def wr_def upto.simps
      changeThreshold_def changeThreshold_loop.simps)

subsection \<open>The last fitted pair\<close>












subsection \<open>The threshold after a detection\<close>


subsection \<open>What the fit stores in the result\<close>








subsection \<open>The pixel leakage correction in the result\<close>


subsection \<open>What a call leaves in the label buffer\<close>

lemma wr_length: "wr xs i v = Some ys \<Longrightarrow> length ys = length xs"
  by (auto simp: wr_def split: if_splits)

lemma mark_dark_length:
  "mark_dark img ii st = Some st' \<Longrightarrow> length (buffer st') = length (buffer st)"
  by (auto simp: mark_dark_def bind_eq_Some_conv wr_length split: if_splits)

lemma classify_at_length:
  "classify_at img pos st = Some st' \<Longrightarrow> length (buffer st') = length (buffer st)"
  by (auto simp: classify_at_def bind_eq_Some_conv wr_length split: if_splits)

lemma visit_length:
  assumes "visit img type pos st = Some (p, st')"
  shows "length (buffer st') = length (buffer st)"
proof -
  from assms obtain stc where c: "classify_at img pos st = Some stc"
    and r: "st' = stc \<or> (\<exists>q buf. wr (buffer stc) pos (numSegments stc) = Some buf \<and>
              st' = stc\<lparr>queue := q, queueEnd := queueEnd stc + 1, buffer := buf\<rparr>)"
    by (auto simp: visit_def bind_eq_Some_conv split: if_splits)
  from r classify_at_length [OF c] show ?thesis by (auto simp: wr_length)
qed

lemma floodFill_length:
  assumes "floodFill cfg img type s = Some s'"
  shows "length (buffer (fst s')) = length (buffer (fst s))"
  by (rule floodFill_rule [OF assms, where P = "\<lambda>t. length (buffer t) = length (buffer (fst s))"])
     (auto dest: visit_length)

lemma examineSegment_length:
  assumes "examineSegment cfg img k ii areaRatio st = Some (r, st')"
  shows "length (buffer st') = length (buffer st)"
proof -
  from assms obtain type buf q stf bb seg' where e:
    "wr (buffer st) ii (numSegments st + 1) = Some buf"
    "floodFill cfg img type
       (st\<lparr>queueOldStart := queueStart st, numSegments := numSegments st + 1, buffer := buf,
           queue := q, queueEnd := queueEnd st + 1\<rparr>,
        ii smod width cfg, ii smod width cfg, ii sdiv width cfg, ii sdiv width cfg) = Some (stf, bb)"
    "st' = stf\<lparr>segmentArray := (segmentArray stf)[nat k := seg']\<rparr>"
    by (rule examineSegment_elim)
  from floodFill_length [OF e(2)] wr_length [OF e(1)] show ?thesis by (simp add: e(3))
qed

lemma examine_inner_length:
  assumes "examine_inner cfg img start (st, ii) = Some (st', ii')"
  shows "length (buffer st') = length (buffer st)"
proof -
  from assms have "\<exists>pos stc.
    classify_at img pos st = Some stc \<and>
    (st' = stc \<and> ii' = ii \<or>
     numSegments stc < MAX_SEGMENTS cfg \<and>
     (\<exists>r std. examineSegment cfg img (numSegments stc) pos (innerAreaRatio cfg) stc = Some (r, std) \<and>
        (r \<and> match_pair cfg img start (std, ii) = Some (st', ii') \<or> \<not> r \<and> st' = std \<and> ii' = ii)))"
    unfolding examine_inner_def Let_def
    by (simp add: bind_eq_Some_conv split: if_splits prod.splits) blast
  then obtain pos stc where c: "classify_at img pos st = Some stc"
    "st' = stc \<or>
     (\<exists>r std. examineSegment cfg img (numSegments stc) pos (innerAreaRatio cfg) stc = Some (r, std) \<and>
        (match_pair cfg img start (std, ii) = Some (st', ii') \<or> st' = std))"
    by blast
  from c(2) show ?thesis
  proof
    assume "st' = stc"
    with classify_at_length [OF c(1)] show ?thesis by simp
  next
    assume "\<exists>r std. examineSegment cfg img (numSegments stc) pos (innerAreaRatio cfg) stc = Some (r, std) \<and>
        (match_pair cfg img start (std, ii) = Some (st', ii') \<or> st' = std)"
    then obtain r std where e:
      "examineSegment cfg img (numSegments stc) pos (innerAreaRatio cfg) stc = Some (r, std)"
      "match_pair cfg img start (std, ii) = Some (st', ii') \<or> st' = std" by blast
    from e(2) have "buffer st' = buffer std"
      using match_pair_ctl [of cfg img start std ii st' ii'] by auto
    with examineSegment_length [OF e(1)] classify_at_length [OF c(1)] show ?thesis by simp
  qed
qed

lemma scan_body_length:
  assumes "scan_body cfg img start (st, ii) = Some (st', ii')"
  shows "length (buffer st') = length (buffer st)"
proof -
  from assms obtain sta and b :: int where a: "mark_dark img ii st = Some sta"
    "(if b = - 2 \<and> numSegments sta < MAX_SEGMENTS cfg
     then examine_outer cfg img start (sta, ii)
     else Some (sta, ii)) = Some (st', ii')"
    unfolding scan_body_def by (auto simp: bind_eq_Some_conv)
  note la = mark_dark_length [OF a(1)]
  from a(2) have "st' = sta \<or> examine_outer cfg img start (sta, ii) = Some (st', ii')"
    by (auto split: if_splits)
  then show ?thesis
  proof
    assume "st' = sta"
    with la show ?thesis by simp
  next
    assume "examine_outer cfg img start (sta, ii) = Some (st', ii')"
    then obtain r stb where e:
      "examineSegment cfg img (numSegments sta) ii (outerAreaRatio cfg)
         (sta\<lparr>queueEnd := 0, queueStart := 0\<rparr>) = Some (r, stb)"
      "r \<and> examine_inner cfg img start (stb, ii) = Some (st', ii') \<or> \<not> r \<and> st' = stb \<and> ii' = ii"
      by (rule examine_outer_elim)
    from e(2) have "length (buffer st') = length (buffer stb)"
      using examine_inner_length [of cfg img start stb ii st' ii'] by auto
    with examineSegment_length [OF e(1)] la show ?thesis by simp
  qed
qed

lemma scan_length:
  assumes "scan cfg img start (st, ii) = Some st'"
  shows "length (buffer st') = length (buffer st)"
  by (rule scan_rule [OF assms, where P = "\<lambda>t. length (buffer t) = length (buffer st)"])
     (auto dest: scan_body_length)

text \<open>The full reset, whatever the segment is.\<close>

lemma bufferCleanup_reset:
  assumes "0 < width cfg" "0 < height cfg" "len cfg = width cfg * height cfg"
    and "int (length (buffer st)) = len cfg"
    and "\<not> s_valid init \<or> \<not> track cfg \<or> \<not> lastTrackOK st"
  shows "\<exists>buf. bufferCleanup cfg init st = Some (st\<lparr>buffer := buf\<rparr>) \<and>
     length buf = length (buffer st) \<and>
     (\<forall>x y. 0 \<le> x \<and> x < width cfg \<and> 0 \<le> y \<and> y < height cfg \<longrightarrow>
        buf ! nat (y * width cfg + x) =
          (if x = 0 \<or> x = width cfg - 1 \<or> y = 0 \<or> y = height cfg - 1 then - 1000 else 0))"
proof -
  let ?b0 = "replicate (length (buffer st)) (0::int)"
  have m: "memset0 (buffer st) (len cfg) = Some ?b0"
    using assms(4) by (auto simp: memset0_def)
  have "int (length ?b0) = width cfg * height cfg" using assms by simp
  from border_loops [OF assms(1,2) this] obtain b1 b2 where b:
    "for_loop [0..width cfg - 1]
       (\<lambda>i buf. do { buf \<leftarrow> wr buf i (- 1000);
                     wr buf ((height cfg - 1) * width cfg + i) (- 1000) }) ?b0 = Some b1"
    "for_loop [0..height cfg - 1]
       (\<lambda>i buf. do { buf \<leftarrow> wr buf (width cfg * i) (- 1000);
                     wr buf (width cfg * i + width cfg - 1) (- 1000) }) b1 = Some b2"
    "written (border_cells (width cfg) (height cfg)) (- 1000) ?b0 b2"
    by blast
  have c: "bufferCleanup cfg init st = Some (st\<lparr>buffer := b2\<rparr>)"
    using assms(5) m b(1,2) by (simp add: bufferCleanup_def Let_def)
  have l: "length b2 = length (buffer st)" using b(3) by (simp add: written_def)
  have "b2 ! nat (y * width cfg + x) =
        (if x = 0 \<or> x = width cfg - 1 \<or> y = 0 \<or> y = height cfg - 1 then - 1000 else 0)"
    if "0 \<le> x \<and> x < width cfg \<and> 0 \<le> y \<and> y < height cfg" for x y
  proof -
    from that have xy: "0 \<le> x" "x < width cfg" "0 \<le> y" "y < height cfg" by auto
    from cell_index_range [OF xy] assms
    have r: "0 \<le> y * width cfg + x" "nat (y * width cfg + x) < length (buffer st)" by auto
    from b(3) r have "b2 ! nat (y * width cfg + x) =
        (if y * width cfg + x \<in> border_cells (width cfg) (height cfg) then - 1000 else 0)"
      by (simp add: written_def)
    then show ?thesis
      unfolding border_cells_iff [OF xy] by simp
  qed
  with c l show ?thesis by blast
qed

text \<open>
  C3, as the code has it. With tracking off, a call of \<open>findSegment\<close> that returns leaves
  the label buffer fully reset, whatever it held before and whatever the scan wrote into
  it: -1000 on the one-pixel border and 0 elsewhere. No label goes from one call to the
  next. (The frame and the threshold do not come back: see the counterexample.)
\<close>

theorem second_call_buffer:
  assumes "findSegment cfg uninit img init st = Some (r, img', st')" and "\<not> track cfg"
    and "0 < width cfg" "0 < height cfg" "len cfg = width cfg * height cfg"
    and "int (length (buffer st)) = len cfg"
  shows "length (buffer st') = length (buffer st) \<and>
     (\<forall>x y. 0 \<le> x \<and> x < width cfg \<and> 0 \<le> y \<and> y < height cfg \<longrightarrow>
        buffer st' ! nat (y * width cfg + x) =
          (if x = 0 \<or> x = width cfg - 1 \<or> y = 0 \<or> y = height cfg - 1 then - 1000 else 0))"
proof -
  from assms(1) obtain start stm ok where e:
    "scan cfg img start (st\<lparr>numSegments := 0\<rparr>, start) = Some stm"
    "bufferCleanup cfg r (failure_update cfg r (stm\<lparr>lastTrackOK := ok\<rparr>)) = Some st'"
    by (rule findSegment_elim)
  let ?u = "failure_update cfg r (stm\<lparr>lastTrackOK := ok\<rparr>)"
  have bu: "buffer ?u = buffer stm"
    by (simp add: failure_update_def Let_def case_prod_beta changeThreshold_def)
  have l: "int (length (buffer ?u)) = len cfg"
    using scan_length [OF e(1)] assms(6) by (simp add: bu)
  from bufferCleanup_reset [OF assms(3,4,5) l, of r] assms(2) obtain buf where b:
    "bufferCleanup cfg r ?u = Some (?u\<lparr>buffer := buf\<rparr>)"
    "length buf = length (buffer ?u)"
    "\<forall>x y. 0 \<le> x \<and> x < width cfg \<and> 0 \<le> y \<and> y < height cfg \<longrightarrow>
        buf ! nat (y * width cfg + x) =
          (if x = 0 \<or> x = width cfg - 1 \<or> y = 0 \<or> y = height cfg - 1 then - 1000 else 0)"
    by blast
  from b(1) e(2) have s: "buffer st' = buf" by auto
  have "length buf = length (buffer st)"
    using b(2) scan_length [OF e(1)] by (simp add: bu)
  with b(3) show ?thesis unfolding s by (rule conjI [rotated])
qed

subsection \<open>Bounds of pi\<close>

text \<open>Bounds of \<open>pi\<close>, from the expansion of the sine.\<close>

lemma sum_upto_10:
  fixes f :: "nat \<Rightarrow> real"
  shows "(\<Sum>m<8. f m) = f 0 + f 1 + f 2 + f 3 + f 4 + f 5 + f 6 + f 7"
    and "(\<Sum>m<10. f m) = f 0 + f 1 + f 2 + f 3 + f 4 + f 5 + f 6 + f 7 + f 8 + f 9"
  by (simp_all add: eval_nat_numeral)

lemma sin_14_5_pos: "0 < sin (14 / 5 :: real)"
proof -
  have "\<bar>sin (14 / 5 :: real) - (\<Sum>m<8. sin_coeff m * (14 / 5) ^ m)\<bar>
      \<le> inverse (fact 8) * \<bar>14 / 5 :: real\<bar> ^ 8"
    by (rule Maclaurin_sin_bound)
  moreover have "(\<Sum>m<8. sin_coeff m * (14 / 5 :: real) ^ m) - inverse (fact 8) * \<bar>14 / 5 :: real\<bar> ^ 8 > 0"
    unfolding sum_upto_10 by (simp add: sin_coeff_def fact_numeral power_divide)
  ultimately show ?thesis by linarith
qed

lemma sin_33_10_neg: "sin (33 / 10 :: real) < 0"
proof -
  have "\<bar>sin (33 / 10 :: real) - (\<Sum>m<10. sin_coeff m * (33 / 10) ^ m)\<bar>
      \<le> inverse (fact 10) * \<bar>33 / 10 :: real\<bar> ^ 10"
    by (rule Maclaurin_sin_bound)
  moreover have "(\<Sum>m<10. sin_coeff m * (33 / 10 :: real) ^ m) + inverse (fact 10) * \<bar>33 / 10 :: real\<bar> ^ 10 < 0"
    unfolding sum_upto_10 by (simp add: sin_coeff_def fact_numeral power_divide)
  ultimately show ?thesis by linarith
qed

lemma pi_gt_14_5: "14 / 5 < pi"
proof (rule ccontr)
  assume "\<not> 14 / 5 < pi"
  then have "pi \<le> 14 / 5" by simp
  moreover have "(14 / 5 :: real) < 2 * pi" using pi_ge_two by linarith
  ultimately have "sin (14 / 5 :: real) \<le> 0" by (rule sin_le_zero)
  with sin_14_5_pos show False by simp
qed

lemma pi_less_33_10: "pi < 33 / 10"
proof (rule ccontr)
  assume "\<not> pi < 33 / 10"
  then have "33 / 10 \<le> pi" by simp
  then have "0 \<le> sin (33 / 10 :: real)" by (intro sin_ge_zero) simp_all
  with sin_33_10_neg show False by simp
qed

subsection \<open>What the flood fill does not depend on\<close>

lemma classify_at_segs:
  "classify_at img pos (st\<lparr>segmentArray := sa\<rparr>)
     = map_option (\<lambda>s. s\<lparr>segmentArray := sa\<rparr>) (classify_at img pos st)"
  by (auto simp: classify_at_def split: Option.bind_split)

lemma visit_segs:
  "visit img type pos (st\<lparr>segmentArray := sa\<rparr>)
     = map_option (\<lambda>s. (fst s, (snd s)\<lparr>segmentArray := sa\<rparr>)) (visit img type pos st)"
  unfolding visit_def classify_at_segs
  by (cases "classify_at img pos st") (auto split: Option.bind_split)

lemma flood_step_segs:
  "flood_step cfg img type (st\<lparr>segmentArray := sa\<rparr>, bb)
     = map_option (\<lambda>s. ((fst s)\<lparr>segmentArray := sa\<rparr>, snd s)) (flood_step cfg img type (st, bb))"
proof (cases "rd (queue st) (queueStart st)")
  case None
  then show ?thesis by (cases bb) (simp add: flood_step_def)
next
  case (Some position)
  obtain minx maxx miny maxy where bb: "bb = (minx, maxx, miny, maxy)" by (cases bb)
  let ?s0 = "st\<lparr>queueStart := queueStart st + 1\<rparr>"
  have u: "st\<lparr>segmentArray := sa, queueStart := queueStart st + 1\<rparr> = ?s0\<lparr>segmentArray := sa\<rparr>"
    by simp
  show ?thesis
  proof (cases "visit img type (position + 1) ?s0")
    case None
    then show ?thesis by (simp add: flood_step_def bb Some Let_def u visit_segs del: detector.update_convs)
  next
    case v1: (Some r1)
    obtain p1 s1 where r1: "r1 = (p1, s1)" by (cases r1)
    show ?thesis
    proof (cases "visit img type (position - 1) s1")
      case None
      with v1 show ?thesis
        by (simp add: flood_step_def bb Some Let_def u visit_segs r1 del: detector.update_convs)
    next
      case v2: (Some r2)
      obtain p2 s2 where r2: "r2 = (p2, s2)" by (cases r2)
      show ?thesis
      proof (cases "visit img type (position - width cfg) s2")
        case None
        with v1 v2 show ?thesis
          by (simp add: flood_step_def bb Some Let_def u visit_segs r1 r2 del: detector.update_convs)
      next
        case v3: (Some r3)
        obtain p3 s3 where r3: "r3 = (p3, s3)" by (cases r3)
        show ?thesis
        proof (cases "visit img type (position + width cfg) s3")
          case None
          with v1 v2 v3 show ?thesis
            by (simp add: flood_step_def bb Some Let_def u visit_segs r1 r2 r3
                del: detector.update_convs)
        next
          case v4: (Some r4)
          obtain p4 s4 where r4: "r4 = (p4, s4)" by (cases r4)
          from v1 v2 v3 v4 show ?thesis
            by (simp add: flood_step_def bb Some Let_def u visit_segs r1 r2 r3 r4
                del: detector.update_convs)
        qed
      qed
    qed
  qed
qed

lemma floodFill_segs:
  "floodFill cfg img type (st\<lparr>segmentArray := sa\<rparr>, bb)
     = map_option (\<lambda>s. ((fst s)\<lparr>segmentArray := sa\<rparr>, snd s)) (floodFill cfg img type (st, bb))"
proof (induction cfg img type "(st, bb)" arbitrary: st bb rule: floodFill.induct)
  case (1 cfg img type)
  show ?case
  proof (cases "queueEnd st > queueStart st")
    case False
    then show ?thesis
      by (simp add: floodFill.simps [of cfg img type "(st, bb)"]
          floodFill.simps [of cfg img type "(st\<lparr>segmentArray := sa\<rparr>, bb)"])
  next
    case True
    show ?thesis
    proof (cases "flood_step cfg img type (st, bb)")
      case None
      with True show ?thesis
        by (simp add: floodFill.simps [of cfg img type "(st, bb)"]
            floodFill.simps [of cfg img type "(st\<lparr>segmentArray := sa\<rparr>, bb)"] flood_step_segs)
    next
      case (Some s')
      obtain st' bb' where s': "s' = (st', bb')" by (cases s')
      from "1.hyps" [of st' bb'] True Some s'
      have "floodFill cfg img type (st'\<lparr>segmentArray := sa\<rparr>, bb')
        = map_option (\<lambda>s. ((fst s)\<lparr>segmentArray := sa\<rparr>, snd s)) (floodFill cfg img type (st', bb'))"
        by simp
      with True Some s' show ?thesis
        by (simp add: floodFill.simps [of cfg img type "(st, bb)"]
            floodFill.simps [of cfg img type "(st\<lparr>segmentArray := sa\<rparr>, bb)"] flood_step_segs)
    qed
  qed
qed

lemma segment_sum_segs: "segment_sum img (st\<lparr>segmentArray := sa\<rparr>) = segment_sum img st"
  by (simp add: segment_sum_def)

lemma coord_sums_segs: "coord_sums w (st\<lparr>segmentArray := sa\<rparr>) a b acc = coord_sums w st a b acc"
  by (simp add: coord_sums_def)

lemma moment_sums_segs: "moment_sums w (st\<lparr>segmentArray := sa\<rparr>) sx sy = moment_sums w st sx sy"
  by (simp add: moment_sums_def)

lemma floodFill_width:
  "width cfg' = width cfg \<Longrightarrow> floodFill cfg' img type s = floodFill cfg img type s"
proof (induction cfg img type s rule: floodFill.induct)
  case (1 cfg img type s)
  have f: "flood_step cfg' img type s = flood_step cfg img type s"
    unfolding flood_step_def "1.prems" by (rule refl)
  show ?case
  proof (cases "queueEnd (fst s) > queueStart (fst s)")
    case False
    then show ?thesis
      by (simp add: floodFill.simps [of _ img type s])
  next
    case True
    show ?thesis
    proof (cases "flood_step cfg img type s")
      case None
      with True f show ?thesis by (simp add: floodFill.simps [of _ img type s])
    next
      case (Some s')
      from "1.IH" [OF True Some "1.prems"] True f Some show ?thesis
        by (simp add: floodFill.simps [of _ img type s])
    qed
  qed
qed

lemma blank_last_cong:
  assumes "queue st' = queue st" "queueOldStart st' = queueOldStart st" "queueEnd st' = queueEnd st"
  shows "blank_last st' d = blank_last st d"
  by (simp add: blank_last_def assms)

lemma rd_map_valid:
  assumes "map s_valid sa' = map s_valid sa"
  shows "rd sa' i \<bind> (\<lambda>seg. f (s_valid seg)) = rd sa i \<bind> (\<lambda>seg. f (s_valid seg))"
proof -
  have l: "length sa' = length sa" using assms by (rule map_eq_imp_length_eq)
  show ?thesis
  proof (cases "0 \<le> i \<and> i < int (length sa)")
    case True
    then have "s_valid (sa' ! nat i) = s_valid (sa ! nat i)"
      using assms l by (metis nat_less_iff nth_map)
    with True l show ?thesis by (simp add: rd_def)
  next
    case False
    with l show ?thesis by (auto simp: rd_def)
  qed
qed

lemma draw_segments_cong:
  assumes "draw cfg' = draw cfg" "len cfg' = len cfg" "buffer st' = buffer st"
    "drawAll st' = drawAll st" "map s_valid (segmentArray st') = map s_valid (segmentArray st)"
  shows "draw_segments cfg' st' d = draw_segments cfg st d"
  unfolding draw_segments_def assms(1-4)
    rd_map_valid [OF assms(5), of _ "\<lambda>v. if v then paint _ _ _ else Some _"]
  by (rule refl)

subsection \<open>Rounds of the scan that find nothing\<close>

lemma scan_body_idle:
  assumes "rd (buffer st) ii = Some b" "b \<noteq> 0" "b \<noteq> - 2"
  shows "scan_body cfg img start (st, ii) = Some (st, ii)"
  using assms by (simp add: scan_body_def mark_dark_def)

text \<open>
  The scan passes over a run of pixels that are labelled already and do not hold the mark
  of a dark pixel.
\<close>

lemma scan_skip:
  assumes "0 \<le> start" "start < len cfg" "len cfg \<le> int (length (buffer st))"
    and "0 \<le> ii" "ii \<le> jj" "jj < len cfg"
    and "list_all (\<lambda>b. b \<noteq> 0 \<and> b \<noteq> - 2) (take (nat (jj - ii)) (drop (nat ii) (buffer st)))"
    and "start \<le> ii \<or> jj < start"
  shows "scan cfg img start (st, ii) = scan cfg img start (st, jj)"
  using assms(4-8)
proof (induction "nat (jj - ii)" arbitrary: ii)
  case 0
  then show ?case by simp
next
  case (Suc n)
  then have lt: "ii < jj" by linarith
  have idx: "nat ii < length (buffer st)" using lt assms(3,6) Suc.prems(1) by linarith
  have tk: "take (nat (jj - ii)) (drop (nat ii) (buffer st))
      = buffer st ! nat ii # take (nat (jj - (ii + 1))) (drop (nat (ii + 1)) (buffer st))"
  proof -
    have "drop (nat ii) (buffer st) = buffer st ! nat ii # drop (Suc (nat ii)) (buffer st)"
      using idx by (simp add: Cons_nth_drop_Suc)
    moreover have "nat (jj - ii) = Suc (nat (jj - (ii + 1)))" using lt by linarith
    moreover have "Suc (nat ii) = nat (ii + 1)" using Suc.prems(1) by linarith
    ultimately show ?thesis by simp
  qed
  from Suc.prems(4) have b: "buffer st ! nat ii \<noteq> 0" "buffer st ! nat ii \<noteq> - 2"
    and rest: "list_all (\<lambda>b. b \<noteq> 0 \<and> b \<noteq> - 2)
                 (take (nat (jj - (ii + 1))) (drop (nat (ii + 1)) (buffer st)))"
    unfolding tk by simp_all
  have r: "rd (buffer st) ii = Some (buffer st ! nat ii)"
    using idx Suc.prems(1) by (simp add: rd_def)
  have body: "scan_body cfg img start (st, ii) = Some (st, ii)"
    by (rule scan_body_idle [OF r b])
  have nx: "scan_next cfg ii = ii + 1" using lt assms(6) by (simp add: scan_next_def)
  have ns: "ii + 1 \<noteq> start" using Suc.prems(5) lt by linarith
  have "scan cfg img start (st, ii) = scan cfg img start (st, ii + 1)"
    using Suc.prems(1) lt assms(1,2,6) ns
    by (simp add: scan.simps [of cfg img start "(st, ii)"] body nx)
  also have "\<dots> = scan cfg img start (st, jj)"
  proof (rule Suc.hyps(1))
    show "n = nat (jj - (ii + 1))" using Suc.hyps(2) by linarith
    show "0 \<le> ii + 1" using Suc.prems(1) by simp
    show "ii + 1 \<le> jj" using lt by simp
    show "jj < len cfg" by (rule assms(6))
    show "list_all (\<lambda>b. b \<noteq> 0 \<and> b \<noteq> - 2)
            (take (nat (jj - (ii + 1))) (drop (nat (ii + 1)) (buffer st)))" by (rule rest)
    show "start \<le> ii + 1 \<or> jj < start" using Suc.prems(5) by linarith
  qed
  finally show ?case .
qed

lemma scan_idle:
  assumes "len cfg = int (length (buffer st))" "0 \<le> ii" "ii < len cfg"
    and "list_all (\<lambda>b. b \<noteq> 0 \<and> b \<noteq> - 2) (drop (nat ii) (buffer st))"
  shows "scan cfg img 0 (st, ii) = Some st"
proof -
  let ?l = "len cfg - 1"
  have all: "\<forall>b \<in> set (drop (nat ii) (buffer st)). b \<noteq> 0 \<and> b \<noteq> - 2"
    using assms(4) by (simp add: list_all_iff)
  have "list_all (\<lambda>b. b \<noteq> 0 \<and> b \<noteq> - 2) (take (nat (?l - ii)) (drop (nat ii) (buffer st)))"
    unfolding list_all_iff using all by (meson in_set_takeD)
  then have 1: "scan cfg img 0 (st, ii) = scan cfg img 0 (st, ?l)"
    using assms(1-3) by (intro scan_skip) auto
  have idx: "nat ?l < length (buffer st)" using assms(1,2,3) by linarith
  have "buffer st ! nat ?l \<in> set (drop (nat ii) (buffer st))"
  proof -
    have e: "nat ii + (nat ?l - nat ii) = nat ?l" using assms(2,3) by linarith
    have l: "nat ?l - nat ii < length (drop (nat ii) (buffer st))"
      using idx assms(2,3) by simp
    have "drop (nat ii) (buffer st) ! (nat ?l - nat ii) = buffer st ! (nat ii + (nat ?l - nat ii))"
      using idx assms(2,3) by (intro nth_drop) linarith
    then have "drop (nat ii) (buffer st) ! (nat ?l - nat ii) = buffer st ! nat ?l"
      unfolding e .
    with nth_mem [OF l] show ?thesis by simp
  qed
  with all have b: "buffer st ! nat ?l \<noteq> 0" "buffer st ! nat ?l \<noteq> - 2" by blast+
  have r: "rd (buffer st) ?l = Some (buffer st ! nat ?l)"
    using idx assms(2,3) by (simp add: rd_def)
  have body: "scan_body cfg img 0 (st, ?l) = Some (st, ?l)"
    by (rule scan_body_idle [OF r b])
  have "scan cfg img 0 (st, ?l) = Some st"
    using assms(2,3) by (simp add: scan.simps [of cfg img 0 "(st, ?l)"] body scan_next_def)
  with 1 show ?thesis by simp
qed

subsection \<open>A frame with a marker\<close>

lemma list_update_numeral [simp]:
  "(x # xs)[numeral k := v] = x # xs[pred_numeral k := v]"
  by (simp add: numeral_eq_Suc)

lemma trunc_numeral [simp]: "trunc 0 = 0" "trunc 1 = 1" "trunc (numeral n) = numeral n"
  by (simp_all add: trunc_def)

lemma cfg_d_fields [simp]:
  "width cfg_d = 8" "height cfg_d = 10" "len cfg_d = 80" "MAX_SEGMENTS cfg_d = 4"
  "minSize cfg_d = 10" "maxFailed cfg_d = 0" "\<not> track cfg_d" "\<not> debug cfg_d" "\<not> draw cfg_d"
  "diameterRatio cfg_d = 1 / 2" "areasRatio cfg_d = 3" "ratioTolerance cfg_d = 4 / 10"
  "circularTolerance cfg_d = 3 / 10" "circularityTolerance cfg_d = 1 / 10"
  "centerDistanceToleranceRatio cfg_d = 11 / 10" "centerDistanceToleranceAbs cfg_d = 5"
  by (simp_all add: cfg_d_def CCircleDetect_config_def)

lemma cfg_d_ratios:
  "outerAreaRatio cfg_d = pi * 3 / 16" "innerAreaRatio cfg_d = pi / 4"
  by (simp_all add: cfg_d_def CCircleDetect_config_def)

lemma img_getwidth [simp]: "getwidth img_d = 8" "getwidth img_z = 8" "getwidth img_p = 8"
  by (simp_all add: img_d_def img_z_def img_p_def)

lemma cfg_e_width: "width cfg_e = 8"
  by (simp add: cfg_e_def)

lemmas demo_defs = det_d_def det_d1_def det_d2_def seg0_def seg_o_def seg_i_def seg_of_def
  res_d_def seg_t_def buf_d_def queue_d_def buf_oa_def queue_oa_def buf_ob_def queue_ob_def
  buf_ia_def queue_ia_def buf_ib_def queue_ib_def buf_tb_def queue_tb_def

text \<open>The pixels that the scan itself classifies.\<close>

lemma pixel_sum_d: "pixel_sum img_d 9 = Some 0" "pixel_sum img_d 35 = Some 765"
  by code_simp+

lemma pixel_sum_z: "pixel_sum img_z 9 = Some 0"
  by code_simp

text \<open>The flood fill of the outer segment and its brightness.\<close>

lemma flood_o_e:
  "floodFill cfg_e img_d (- 2)
     (\<lparr>buffer = buf_oa, queue = queue_oa, queueStart = 0, queueEnd = 1,
     queueOldStart = 0, numSegments = 1, segmentArray = [],
     threshold = 384, lastThreshold = 0, numFailed = 0, lastTrackOK = False, drawAll = False\<rparr>, 1, 1, 1, 1)
   = Some (\<lparr>buffer = buf_ob, queue = queue_ob, queueStart = 36, queueEnd = 36,
     queueOldStart = 0, numSegments = 1, segmentArray = [],
     threshold = 384, lastThreshold = 0, numFailed = 0, lastTrackOK = False, drawAll = False\<rparr>, 1, 6, 1, 8)"
  by code_simp

lemma flood_o:
  assumes "width cfg = 8"
  shows "floodFill cfg img_d (- 2)
     (\<lparr>buffer = buf_oa, queue = queue_oa, queueStart = 0, queueEnd = 1,
     queueOldStart = 0, numSegments = 1, segmentArray = sa,
     threshold = 384, lastThreshold = 0, numFailed = 0, lastTrackOK = False, drawAll = False\<rparr>, 1, 1, 1, 1)
   = Some (\<lparr>buffer = buf_ob, queue = queue_ob, queueStart = 36, queueEnd = 36,
     queueOldStart = 0, numSegments = 1, segmentArray = sa,
     threshold = 384, lastThreshold = 0, numFailed = 0, lastTrackOK = False, drawAll = False\<rparr>, 1, 6, 1, 8)"
proof -
  have "floodFill cfg img_d (- 2)
     ((\<lparr>buffer = buf_oa, queue = queue_oa, queueStart = 0, queueEnd = 1,
     queueOldStart = 0, numSegments = 1, segmentArray = [],
     threshold = 384, lastThreshold = 0, numFailed = 0, lastTrackOK = False, drawAll = False\<rparr>)\<lparr>segmentArray := sa\<rparr>, 1, 1, 1, 1)
   = Some ((\<lparr>buffer = buf_ob, queue = queue_ob, queueStart = 36, queueEnd = 36,
     queueOldStart = 0, numSegments = 1, segmentArray = [],
     threshold = 384, lastThreshold = 0, numFailed = 0, lastTrackOK = False, drawAll = False\<rparr>)\<lparr>segmentArray := sa\<rparr>, 1, 6, 1, 8)"
    unfolding floodFill_segs floodFill_width [of cfg cfg_e, OF assms [folded cfg_e_width]] flood_o_e
    by simp
  then show ?thesis by simp
qed

lemma sum_o_e: "segment_sum img_d (\<lparr>buffer = buf_ob, queue = queue_ob, queueStart = 36, queueEnd = 36,
     queueOldStart = 0, numSegments = 1, segmentArray = [],
     threshold = 384, lastThreshold = 0, numFailed = 0, lastTrackOK = False, drawAll = False\<rparr>) = Some 0"
  by code_simp

lemma sum_o: "segment_sum img_d (\<lparr>buffer = buf_ob, queue = queue_ob, queueStart = 36, queueEnd = 36,
     queueOldStart = 0, numSegments = 1, segmentArray = sa,
     threshold = 384, lastThreshold = 0, numFailed = 0, lastTrackOK = False, drawAll = False\<rparr>) = Some 0"
  using sum_o_e segment_sum_segs [where img = img_d and sa = sa and st = "\<lparr>buffer = buf_ob, queue = queue_ob, queueStart = 36, queueEnd = 36,
     queueOldStart = 0, numSegments = 1, segmentArray = [],
     threshold = 384, lastThreshold = 0, numFailed = 0, lastTrackOK = False, drawAll = False\<rparr>"] by simp

lemma round_o: "round_test cfg_d (roundness_of 6 8 (outerAreaRatio cfg_d) 36)"
  using pi_gt_14_5 pi_less_33_10 by (simp add: round_test_def roundness_of_def cfg_d_ratios)

lemma examine_o:
  "examineSegment cfg_d img_d 0 9 (outerAreaRatio cfg_d)
     (\<lparr>buffer = buf_d[9 := - 2], queue = queue_d, queueStart = 0, queueEnd = 0,
     queueOldStart = 0, numSegments = 0, segmentArray = [seg0, seg0, seg0, seg0],
     threshold = 384, lastThreshold = 0, numFailed = 0, lastTrackOK = False, drawAll = False\<rparr>)
   = Some (True, \<lparr>buffer = buf_ob, queue = queue_ob, queueStart = 36, queueEnd = 36,
     queueOldStart = 0, numSegments = 1, segmentArray = [seg_o, seg0, seg0, seg0],
     threshold = 384, lastThreshold = 0, numFailed = 0, lastTrackOK = False, drawAll = False\<rparr>)"
  by (simp add: examineSegment_def rd_def wr_def Let_def demo_defs segment_props_def round_o
    flood_o [unfolded demo_defs, simplified] sum_o [unfolded demo_defs, simplified])

text \<open>The flood fill of the inner segment and its brightness.\<close>

lemma flood_i_e:
  "floodFill cfg_e img_d (- 1)
     (\<lparr>buffer = buf_ia, queue = queue_ia, queueStart = 36, queueEnd = 37,
     queueOldStart = 36, numSegments = 2, segmentArray = [],
     threshold = 384, lastThreshold = 0, numFailed = 0, lastTrackOK = False, drawAll = False\<rparr>, 3, 3, 4, 4)
   = Some (\<lparr>buffer = buf_ib, queue = queue_ib, queueStart = 48, queueEnd = 48,
     queueOldStart = 36, numSegments = 2, segmentArray = [],
     threshold = 384, lastThreshold = 0, numFailed = 0, lastTrackOK = False, drawAll = False\<rparr>, 2, 4, 3, 6)"
  by code_simp

lemma flood_i:
  assumes "width cfg = 8"
  shows "floodFill cfg img_d (- 1)
     (\<lparr>buffer = buf_ia, queue = queue_ia, queueStart = 36, queueEnd = 37,
     queueOldStart = 36, numSegments = 2, segmentArray = sa,
     threshold = 384, lastThreshold = 0, numFailed = 0, lastTrackOK = False, drawAll = False\<rparr>, 3, 3, 4, 4)
   = Some (\<lparr>buffer = buf_ib, queue = queue_ib, queueStart = 48, queueEnd = 48,
     queueOldStart = 36, numSegments = 2, segmentArray = sa,
     threshold = 384, lastThreshold = 0, numFailed = 0, lastTrackOK = False, drawAll = False\<rparr>, 2, 4, 3, 6)"
proof -
  have "floodFill cfg img_d (- 1)
     ((\<lparr>buffer = buf_ia, queue = queue_ia, queueStart = 36, queueEnd = 37,
     queueOldStart = 36, numSegments = 2, segmentArray = [],
     threshold = 384, lastThreshold = 0, numFailed = 0, lastTrackOK = False, drawAll = False\<rparr>)\<lparr>segmentArray := sa\<rparr>, 3, 3, 4, 4)
   = Some ((\<lparr>buffer = buf_ib, queue = queue_ib, queueStart = 48, queueEnd = 48,
     queueOldStart = 36, numSegments = 2, segmentArray = [],
     threshold = 384, lastThreshold = 0, numFailed = 0, lastTrackOK = False, drawAll = False\<rparr>)\<lparr>segmentArray := sa\<rparr>, 2, 4, 3, 6)"
    unfolding floodFill_segs floodFill_width [of cfg cfg_e, OF assms [folded cfg_e_width]] flood_i_e
    by simp
  then show ?thesis by simp
qed

lemma sum_i_e: "segment_sum img_d (\<lparr>buffer = buf_ib, queue = queue_ib, queueStart = 48, queueEnd = 48,
     queueOldStart = 36, numSegments = 2, segmentArray = [],
     threshold = 384, lastThreshold = 0, numFailed = 0, lastTrackOK = False, drawAll = False\<rparr>) = Some 9180"
  by code_simp

lemma sum_i: "segment_sum img_d (\<lparr>buffer = buf_ib, queue = queue_ib, queueStart = 48, queueEnd = 48,
     queueOldStart = 36, numSegments = 2, segmentArray = sa,
     threshold = 384, lastThreshold = 0, numFailed = 0, lastTrackOK = False, drawAll = False\<rparr>) = Some 9180"
  using sum_i_e segment_sum_segs [where img = img_d and sa = sa and st = "\<lparr>buffer = buf_ib, queue = queue_ib, queueStart = 48, queueEnd = 48,
     queueOldStart = 36, numSegments = 2, segmentArray = [],
     threshold = 384, lastThreshold = 0, numFailed = 0, lastTrackOK = False, drawAll = False\<rparr>"] by simp

lemma round_i: "round_test cfg_d (roundness_of 3 4 (innerAreaRatio cfg_d) 12)"
  using pi_gt_14_5 pi_less_33_10 by (simp add: round_test_def roundness_of_def cfg_d_ratios)

lemma examine_i:
  "examineSegment cfg_d img_d 1 35 (innerAreaRatio cfg_d)
     (\<lparr>buffer = buf_ob[35 := - 1], queue = queue_ob, queueStart = 36, queueEnd = 36,
     queueOldStart = 0, numSegments = 1, segmentArray = [seg_o, seg0, seg0, seg0],
     threshold = 384, lastThreshold = 0, numFailed = 0, lastTrackOK = False, drawAll = False\<rparr>)
   = Some (True, \<lparr>buffer = buf_ib, queue = queue_ib, queueStart = 48, queueEnd = 48,
     queueOldStart = 36, numSegments = 2, segmentArray = [seg_o, seg_i, seg0, seg0],
     threshold = 384, lastThreshold = 0, numFailed = 0, lastTrackOK = False, drawAll = False\<rparr>)"
  by (simp add: examineSegment_def rd_def wr_def Let_def demo_defs segment_props_def round_i
    flood_i [unfolded demo_defs, simplified] sum_i [unfolded demo_defs, simplified])

text \<open>The sums of the fit over the 48 pixels of the two segments.\<close>

lemma sums_d_e:
  "coord_sums 8 (\<lparr>buffer = buf_ib, queue = queue_ib, queueStart = 48, queueEnd = 48,
     queueOldStart = 36, numSegments = 2, segmentArray = [],
     threshold = 384, lastThreshold = 0, numFailed = 0, lastTrackOK = False, drawAll = False\<rparr>) 36 48 (0, 0) = Some (36, 54)"
  "coord_sums 8 (\<lparr>buffer = buf_ib, queue = queue_ib, queueStart = 48, queueEnd = 48,
     queueOldStart = 36, numSegments = 2, segmentArray = [],
     threshold = 384, lastThreshold = 0, numFailed = 0, lastTrackOK = False, drawAll = False\<rparr>) 0 36 (36, 54) = Some (168, 216)"
  "moment_sums 8 (\<lparr>buffer = buf_ib, queue = queue_ib, queueStart = 48, queueEnd = 48,
     queueOldStart = 36, numSegments = 2, segmentArray = [],
     threshold = 384, lastThreshold = 0, numFailed = 0, lastTrackOK = False, drawAll = False\<rparr>) (7 / 2) (9 / 2) = Some (140, 0, 252)"
  by code_simp+

lemma sums_d:
  "coord_sums 8 (\<lparr>buffer = buf_ib, queue = queue_ib, queueStart = 48, queueEnd = 48,
     queueOldStart = 36, numSegments = 2, segmentArray = sa,
     threshold = 384, lastThreshold = 0, numFailed = 0, lastTrackOK = False, drawAll = False\<rparr>) 36 48 (0, 0) = Some (36, 54)"
  "coord_sums 8 (\<lparr>buffer = buf_ib, queue = queue_ib, queueStart = 48, queueEnd = 48,
     queueOldStart = 36, numSegments = 2, segmentArray = sa,
     threshold = 384, lastThreshold = 0, numFailed = 0, lastTrackOK = False, drawAll = False\<rparr>) 0 36 (36, 54) = Some (168, 216)"
  "moment_sums 8 (\<lparr>buffer = buf_ib, queue = queue_ib, queueStart = 48, queueEnd = 48,
     queueOldStart = 36, numSegments = 2, segmentArray = sa,
     threshold = 384, lastThreshold = 0, numFailed = 0, lastTrackOK = False, drawAll = False\<rparr>) (7 / 2) (9 / 2) = Some (140, 0, 252)"
  using sums_d_e
    coord_sums_segs [where sa = sa and st = "\<lparr>buffer = buf_ib, queue = queue_ib, queueStart = 48, queueEnd = 48,
     queueOldStart = 36, numSegments = 2, segmentArray = [],
     threshold = 384, lastThreshold = 0, numFailed = 0, lastTrackOK = False, drawAll = False\<rparr>"]
    moment_sums_segs [where sa = sa and st = "\<lparr>buffer = buf_ib, queue = queue_ib, queueStart = 48, queueEnd = 48,
     queueOldStart = 36, numSegments = 2, segmentArray = [],
     threshold = 384, lastThreshold = 0, numFailed = 0, lastTrackOK = False, drawAll = False\<rparr>"]
  by simp_all

text \<open>The tests on the pair and the numbers of the fit.\<close>

lemma pair_d: "pair_test cfg_d seg_o seg_i"
  by (simp add: pair_test_def seg_o_def seg_i_def seg0_def)

lemma sqrt_49_9: "sqrt (49 / 9) = 7 / 3"
  using real_sqrt_abs2 [of "7 / 3"] by (simp add: power2_eq_square)

lemma eigen_d: "eigen_f0 (35 / 12) 0 (21 / 4) = 21 / 4" "eigen_f1 (35 / 12) 0 (21 / 4) = 35 / 12"
  by (simp_all add: eigen_f0_def eigen_f1_def sqrt_49_9)

lemma circ_d: "circularity_test cfg_d (circularity_of (sqrt (21 / 4)) (sqrt (35 / 12)) 48)"
proof -
  let ?s = "sqrt (21 / 4) * sqrt (35 / 12)"
  have s: "?s = sqrt (245 / 16)" by (simp add: real_sqrt_mult [symmetric])
  have "39 / 10 < sqrt (245 / 16)"
    by (rule real_less_rsqrt) (simp add: power2_eq_square)
  moreover have "sqrt (245 / 16) < 98 / 25"
    by (rule real_less_lsqrt) (simp_all add: power2_eq_square)
  ultimately have "39 / 10 < ?s" "?s < 98 / 25"
    unfolding s by simp_all
  moreover have "14 / 5 * (39 / 10) < pi * ?s"
    using pi_gt_14_5 calculation(1) by (intro mult_strict_mono) simp_all
  moreover have "pi * ?s < 33 / 10 * (98 / 25)"
    using pi_less_33_10 calculation(2) pi_gt_zero by (intro mult_strict_mono) simp_all
  ultimately have "9 / 10 < pi * ?s / 12" "pi * ?s / 12 < 11 / 10" by simp_all
  moreover have "circularity_of (sqrt (21 / 4)) (sqrt (35 / 12)) 48 = pi * ?s / 12"
    by (simp add: circularity_of_def)
  ultimately show ?thesis by (simp add: circularity_test_def)
qed

lemma corrected_d: "corrected_axes (1 / 2) (21 / 4) (35 / 12) 36 12 = (sqrt (21 / 4), sqrt (35 / 12))"
  by (rule corrected_axes_exact) simp_all

lemma fit_d:
  "ellipse_fit cfg_d 8
     (\<lparr>buffer = buf_ib, queue = queue_ib, queueStart = 48, queueEnd = 48,
     queueOldStart = 36, numSegments = 2, segmentArray = [seg_o, seg_i, seg0, seg0],
     threshold = 384, lastThreshold = 0, numFailed = 0, lastTrackOK = False, drawAll = False\<rparr>) seg_o seg_i
   = Some (seg_of, res_d, True)"
  by (simp add: ellipse_fit_def Let_def sums_d [unfolded demo_defs, simplified] demo_defs
      eigen_d circ_d corrected_d atan2_def sqrt_49_9)

text \<open>The round of the scan that finds the marker, and the scan.\<close>

lemma scan_body_d:
  "scan_body cfg_d img_d 0 (det_d, 9)
   = Some (\<lparr>buffer = buf_ib, queue = queue_ib, queueStart = 48, queueEnd = 48,
     queueOldStart = 36, numSegments = 2, segmentArray = [seg_of, res_d, seg0, seg0],
     threshold = 382, lastThreshold = 0, numFailed = 0, lastTrackOK = False, drawAll = False\<rparr>, 9)"
  by (simp add: scan_body_def mark_dark_def examine_outer_def examine_inner_def classify_at_def
      classify_def match_pair_def fit_pair_def rd_def wr_def Let_def demo_defs pixel_sum_d
      pair_d [unfolded demo_defs, simplified] examine_o [unfolded demo_defs, simplified]
      examine_i [unfolded demo_defs, simplified] fit_d [unfolded demo_defs, simplified])

lemma scan_d:
  "scan cfg_d img_d 0 (det_d, 0)
   = Some (\<lparr>buffer = buf_ib, queue = queue_ib, queueStart = 48, queueEnd = 48,
     queueOldStart = 36, numSegments = 2, segmentArray = [seg_of, res_d, seg0, seg0],
     threshold = 382, lastThreshold = 0, numFailed = 0, lastTrackOK = False, drawAll = False\<rparr>)"
proof -
  have "scan cfg_d img_d 0 (det_d, 0) = scan cfg_d img_d 0 (det_d, 9)"
    by (rule scan_skip) (simp_all add: demo_defs)
  also have "\<dots> = scan cfg_d img_d 0 (\<lparr>buffer = buf_ib, queue = queue_ib, queueStart = 48, queueEnd = 48,
     queueOldStart = 36, numSegments = 2, segmentArray = [seg_of, res_d, seg0, seg0],
     threshold = 382, lastThreshold = 0, numFailed = 0, lastTrackOK = False, drawAll = False\<rparr>, 10)"
    by (simp add: scan.simps [of cfg_d img_d 0 "(det_d, 9)"] scan_body_d scan_next_def)
  also have "\<dots> = Some (\<lparr>buffer = buf_ib, queue = queue_ib, queueStart = 48, queueEnd = 48,
     queueOldStart = 36, numSegments = 2, segmentArray = [seg_of, res_d, seg0, seg0],
     threshold = 382, lastThreshold = 0, numFailed = 0, lastTrackOK = False, drawAll = False\<rparr>)"
    by (rule scan_idle) (simp_all add: demo_defs)
  finally show ?thesis .
qed

text \<open>The end of the frame: the pixels set to black, the drawing and the full reset.\<close>

lemma blank_d_e: "blank_last (\<lparr>buffer = buf_ib, queue = queue_ib, queueStart = 48, queueEnd = 48,
     queueOldStart = 36, numSegments = 2, segmentArray = [],
     threshold = 384, lastThreshold = 0, numFailed = 0, lastTrackOK = False, drawAll = False\<rparr>) (data img_d) = Some (data img_z)"
  by code_simp

lemma blank_d:
  assumes "queue st = queue_ib" "queueOldStart st = 36" "queueEnd st = 48"
  shows "blank_last st (data img_d) = Some (data img_z)"
  using blank_d_e blank_last_cong [of st "\<lparr>buffer = buf_ib, queue = queue_ib, queueStart = 48, queueEnd = 48,
     queueOldStart = 36, numSegments = 2, segmentArray = [],
     threshold = 384, lastThreshold = 0, numFailed = 0, lastTrackOK = False, drawAll = False\<rparr>" "data img_d"] assms by simp

lemma draw_d_e:
  "draw_segments (cfg_e\<lparr>draw := True\<rparr>)
     (\<lparr>buffer = buf_ib, queue = queue_ib, queueStart = 48, queueEnd = 48,
     queueOldStart = 36, numSegments = 2, segmentArray = [seg0\<lparr>s_valid := True\<rparr>, seg0\<lparr>s_valid := True\<rparr>, seg0, seg0],
     threshold = 384, lastThreshold = 0, numFailed = 0, lastTrackOK = False, drawAll = False\<rparr>)
     (data img_z) = Some (data img_p)"
  by code_simp

lemma draw_d:
  assumes "draw cfg" "len cfg = 80" "buffer st = buf_ib" "\<not> drawAll st"
    "map s_valid (segmentArray st) = [True, True, False, False]"
  shows "draw_segments cfg st (data img_z) = Some (data img_p)"
  using draw_d_e
    draw_segments_cong [of cfg "cfg_e\<lparr>draw := True\<rparr>" st
      "\<lparr>buffer = buf_ib, queue = queue_ib, queueStart = 48, queueEnd = 48,
     queueOldStart = 36, numSegments = 2, segmentArray = [seg0\<lparr>s_valid := True\<rparr>, seg0\<lparr>s_valid := True\<rparr>, seg0, seg0],
     threshold = 384, lastThreshold = 0, numFailed = 0, lastTrackOK = False, drawAll = False\<rparr>" "data img_z"]
    assms
  by (simp add: cfg_e_def seg0_def)

lemma replicate_numeral:
  "replicate (numeral k) x = x # replicate (pred_numeral k) x"
  by (simp add: numeral_eq_Suc)

lemma cleanup_d:
  assumes "\<not> track cfg" "width cfg = 8" "height cfg = 10" "len cfg = 80"
    "length (buffer st) = 80"
  shows "bufferCleanup cfg init st = Some (st\<lparr>buffer := buf_d\<rparr>)"
  using assms
  by (simp add: bufferCleanup_def memset0_def upto.simps wr_def buf_d_def replicate_numeral)

lemma img_data [simp]: "img_d\<lparr>data := data img_z\<rparr> = img_z" "img_z\<lparr>data := data img_z\<rparr> = img_z"
  "img_d\<lparr>data := data img_p\<rparr> = img_p"
  by (simp_all add: img_d_def img_z_def img_p_def)

text \<open>The first call finds the marker.\<close>

lemma findSegment_d: "findSegment cfg_d seg0 img_d seg0 det_d = Some (res_d, img_z, det_d1)"
  by (simp add: findSegment_def Let_def demo_defs scan_d [unfolded demo_defs, simplified]
      select_result_def track_ok_def failure_update_def draw_segments_def upto.simps rd_def
      blank_d [unfolded demo_defs] cleanup_d [unfolded demo_defs])

text \<open>And so it does with the flags \<open>debug\<close> and \<open>draw\<close> set, and paints it.\<close>

lemma findSegment_p:
  "findSegment (cfg_d\<lparr>debug := True, draw := True\<rparr>) seg0 img_d seg0 det_d
     = Some (res_d, img_p, det_d1)"
  by (simp add: findSegment_def Let_def demo_defs scan_flags scan_d [unfolded demo_defs, simplified]
      select_result_def track_ok_def failure_update_def upto.simps rd_def
      blank_d [unfolded demo_defs] draw_d [unfolded demo_defs] cleanup_d [unfolded demo_defs])

text \<open>
  The second call, on the frame and the detector that the first one leaves: the frame is
  black, the flood fill covers the 48 pixels inside the border, and the segment is not round.
\<close>

lemma flood_t_e:
  "floodFill cfg_e img_z (- 2)
     (\<lparr>buffer = buf_oa, queue = queue_ib, queueStart = 0, queueEnd = 1,
     queueOldStart = 0, numSegments = 1, segmentArray = [],
     threshold = 382, lastThreshold = 382, numFailed = 0, lastTrackOK = True, drawAll = False\<rparr>, 1, 1, 1, 1)
   = Some (\<lparr>buffer = buf_tb, queue = queue_tb, queueStart = 48, queueEnd = 48,
     queueOldStart = 0, numSegments = 1, segmentArray = [],
     threshold = 382, lastThreshold = 382, numFailed = 0, lastTrackOK = True, drawAll = False\<rparr>, 1, 6, 1, 8)"
  by code_simp

lemma flood_t:
  assumes "width cfg = 8"
  shows "floodFill cfg img_z (- 2)
     (\<lparr>buffer = buf_oa, queue = queue_ib, queueStart = 0, queueEnd = 1,
     queueOldStart = 0, numSegments = 1, segmentArray = sa,
     threshold = 382, lastThreshold = 382, numFailed = 0, lastTrackOK = True, drawAll = False\<rparr>, 1, 1, 1, 1)
   = Some (\<lparr>buffer = buf_tb, queue = queue_tb, queueStart = 48, queueEnd = 48,
     queueOldStart = 0, numSegments = 1, segmentArray = sa,
     threshold = 382, lastThreshold = 382, numFailed = 0, lastTrackOK = True, drawAll = False\<rparr>, 1, 6, 1, 8)"
proof -
  have "floodFill cfg img_z (- 2)
     ((\<lparr>buffer = buf_oa, queue = queue_ib, queueStart = 0, queueEnd = 1,
     queueOldStart = 0, numSegments = 1, segmentArray = [],
     threshold = 382, lastThreshold = 382, numFailed = 0, lastTrackOK = True, drawAll = False\<rparr>)\<lparr>segmentArray := sa\<rparr>, 1, 1, 1, 1)
   = Some ((\<lparr>buffer = buf_tb, queue = queue_tb, queueStart = 48, queueEnd = 48,
     queueOldStart = 0, numSegments = 1, segmentArray = [],
     threshold = 382, lastThreshold = 382, numFailed = 0, lastTrackOK = True, drawAll = False\<rparr>)\<lparr>segmentArray := sa\<rparr>, 1, 6, 1, 8)"
    unfolding floodFill_segs floodFill_width [of cfg cfg_e, OF assms [folded cfg_e_width]] flood_t_e
    by simp
  then show ?thesis by simp
qed

lemma round_t: "\<not> round_test cfg_d (roundness_of 6 8 (outerAreaRatio cfg_d) 48)"
  using pi_gt_14_5 pi_less_33_10 by (simp add: round_test_def roundness_of_def cfg_d_ratios)

lemma examine_t:
  "examineSegment cfg_d img_z 0 9 (outerAreaRatio cfg_d)
     (\<lparr>buffer = buf_d[9 := - 2], queue = queue_ib, queueStart = 0, queueEnd = 0,
     queueOldStart = 36, numSegments = 0, segmentArray = [seg_of, res_d, seg0, seg0],
     threshold = 382, lastThreshold = 382, numFailed = 0, lastTrackOK = True, drawAll = False\<rparr>)
   = Some (False, \<lparr>buffer = buf_tb, queue = queue_tb, queueStart = 48, queueEnd = 48,
     queueOldStart = 0, numSegments = 1, segmentArray = [seg_t, res_d, seg0, seg0],
     threshold = 382, lastThreshold = 382, numFailed = 0, lastTrackOK = True, drawAll = False\<rparr>)"
  by (simp add: examineSegment_def rd_def wr_def Let_def demo_defs segment_props_def round_t
    flood_t [unfolded demo_defs, simplified])

lemma scan_body_t:
  "scan_body cfg_d img_z 0 (det_d1\<lparr>numSegments := 0\<rparr>, 9)
   = Some (\<lparr>buffer = buf_tb, queue = queue_tb, queueStart = 48, queueEnd = 48,
     queueOldStart = 0, numSegments = 1, segmentArray = [seg_t, res_d, seg0, seg0],
     threshold = 382, lastThreshold = 382, numFailed = 0, lastTrackOK = True, drawAll = False\<rparr>, 9)"
  by (simp add: scan_body_def mark_dark_def examine_outer_def rd_def wr_def Let_def demo_defs
      pixel_sum_z examine_t [unfolded demo_defs, simplified])

lemma scan_t:
  "scan cfg_d img_z 0 (det_d1\<lparr>numSegments := 0\<rparr>, 0)
   = Some (\<lparr>buffer = buf_tb, queue = queue_tb, queueStart = 48, queueEnd = 48,
     queueOldStart = 0, numSegments = 1, segmentArray = [seg_t, res_d, seg0, seg0],
     threshold = 382, lastThreshold = 382, numFailed = 0, lastTrackOK = True, drawAll = False\<rparr>)"
proof -
  let ?s = "det_d1\<lparr>numSegments := 0\<rparr>"
  have "scan cfg_d img_z 0 (?s, 0) = scan cfg_d img_z 0 (?s, 9)"
    by (rule scan_skip) (simp_all add: demo_defs)
  also have "\<dots> = scan cfg_d img_z 0 (\<lparr>buffer = buf_tb, queue = queue_tb, queueStart = 48, queueEnd = 48,
     queueOldStart = 0, numSegments = 1, segmentArray = [seg_t, res_d, seg0, seg0],
     threshold = 382, lastThreshold = 382, numFailed = 0, lastTrackOK = True, drawAll = False\<rparr>, 10)"
    by (simp add: scan.simps [of cfg_d img_z 0 "(?s, 9)"] scan_body_t scan_next_def)
  also have "\<dots> = Some (\<lparr>buffer = buf_tb, queue = queue_tb, queueStart = 48, queueEnd = 48,
     queueOldStart = 0, numSegments = 1, segmentArray = [seg_t, res_d, seg0, seg0],
     threshold = 382, lastThreshold = 382, numFailed = 0, lastTrackOK = True, drawAll = False\<rparr>)"
    by (rule scan_idle) (simp_all add: demo_defs)
  finally show ?thesis .
qed

lemma blank_t_e: "blank_last (\<lparr>buffer = buf_tb, queue = queue_tb, queueStart = 48, queueEnd = 48,
     queueOldStart = 0, numSegments = 1, segmentArray = [],
     threshold = 382, lastThreshold = 382, numFailed = 0, lastTrackOK = True, drawAll = False\<rparr>) (data img_z) = Some (data img_z)"
  by code_simp

lemma blank_t:
  assumes "queue st = queue_tb" "queueOldStart st = 0" "queueEnd st = 48"
  shows "blank_last st (data img_z) = Some (data img_z)"
  using blank_t_e blank_last_cong [of st "\<lparr>buffer = buf_tb, queue = queue_tb, queueStart = 48, queueEnd = 48,
     queueOldStart = 0, numSegments = 1, segmentArray = [],
     threshold = 382, lastThreshold = 382, numFailed = 0, lastTrackOK = True, drawAll = False\<rparr>" "data img_z"] assms by simp

lemma changeThreshold_1:
  "numFailed st = 1 \<Longrightarrow> changeThreshold st = (True, st\<lparr>threshold := 384\<rparr>)"
  by (simp add: changeThreshold_def changeThreshold_loop.simps [of 1 1])

lemma findSegment_t: "findSegment cfg_d seg0 img_z seg0 det_d1 = Some (seg0, img_z, det_d2)"
  by (simp add: findSegment_def Let_def demo_defs scan_t [unfolded demo_defs, simplified]
      select_result_def track_ok_def failure_update_def draw_segments_def upto.simps rd_def
      changeThreshold_1
      blank_t [unfolded demo_defs] cleanup_d [unfolded demo_defs])

subsection \<open>Instances on the frame with a marker\<close>

theorem flags_no_effect_witness:
  "findSegment cfg_d seg0 img_d seg0 det_d = Some (res_d, img_z, det_d1) \<and>
   findSegment (cfg_d\<lparr>debug := True, draw := True\<rparr>) seg0 img_d seg0 det_d
     = Some (res_d, img_p, det_d1) \<and>
   s_valid res_d \<and> s_size res_d = 48 \<and> numSegments det_d1 = 2 \<and> data img_p \<noteq> data img_z \<and>
   threshold det_d1 = 382 \<and> numFailed det_d1 = 0 \<and>
   det_d1\<lparr>drawAll := drawAll det_d1\<rparr> = det_d1 \<and>
   findSegment cfg_tiny seg0 img_tiny seg0 det_tiny
     = Some (seg0, img_tiny, det_tiny\<lparr>threshold := 24, numFailed := 0\<rparr>) \<and>
   findSegment (cfg_tiny\<lparr>debug := True, draw := True\<rparr>) seg0 img_tiny seg0 det_tiny
     = Some (seg0, img_tiny, det_tiny\<lparr>threshold := 24, numFailed := 0, drawAll := True\<rparr>) \<and>
   (det_tiny\<lparr>threshold := 24, numFailed := 0, drawAll := True\<rparr>)
     \<lparr>drawAll := drawAll (det_tiny\<lparr>threshold := 24, numFailed := 0\<rparr>)\<rparr>
     = det_tiny\<lparr>threshold := 24, numFailed := 0\<rparr>"
proof -
  note a = flags_no_effect [OF findSegment_d findSegment_p]
  note b = flags_no_effect [OF findSegment_tiny findSegment_tiny_flags]
  have "s_valid res_d" "s_size res_d = 48" "numSegments det_d1 = 2"
    "threshold det_d1 = 382" "numFailed det_d1 = 0"
    by (simp_all add: res_d_def det_d1_def)
  moreover have "data img_p \<noteq> data img_z" by (simp add: img_p_def img_z_def)
  ultimately show ?thesis
    using a b findSegment_d findSegment_p findSegment_tiny findSegment_tiny_flags by simp
qed







text \<open>
  On the frame with a marker the scan labels the 48 pixels of the pair (the cell of pixel
  (3, 4) holds the label 2 when the scan ends), and the call returns with the buffer reset:
  that cell holds 0 again, and the border cells hold -1000.
\<close>

theorem second_call_buffer_witness:
  "findSegment cfg_d seg0 img_d seg0 det_d = Some (res_d, img_z, det_d1) \<and> \<not> track cfg_d \<and>
   0 < width cfg_d \<and> 0 < height cfg_d \<and> len cfg_d = width cfg_d * height cfg_d \<and>
   int (length (buffer det_d)) = len cfg_d \<and>
   map_option buffer (scan cfg_d img_d 0 (det_d, 0)) = Some buf_ib \<and> buf_ib ! 35 = 2 \<and>
   length (buffer det_d1) = 80 \<and>
   buffer det_d1 ! nat (4 * width cfg_d + 3) = 0 \<and>
   buffer det_d1 ! nat (4 * width cfg_d + 0) = - 1000 \<and>
   buffer det_d1 ! nat (9 * width cfg_d + 5) = - 1000"
proof -
  have h: "\<not> track cfg_d" "0 < width cfg_d" "0 < height cfg_d"
    "len cfg_d = width cfg_d * height cfg_d" "int (length (buffer det_d)) = len cfg_d"
    by (simp_all add: det_d_def buf_d_def)
  note t = second_call_buffer [OF findSegment_d h]
  have l: "length (buffer det_d) = 80" by (simp add: det_d_def buf_d_def)
  have s: "map_option buffer (scan cfg_d img_d 0 (det_d, 0)) = Some buf_ib" "buf_ib ! 35 = 2"
    by (simp_all add: scan_d buf_ib_def)
  from t [THEN conjunct2, rule_format, of 3 4]
  have a: "buffer det_d1 ! nat (4 * width cfg_d + 3) = 0" by simp
  from t [THEN conjunct2, rule_format, of 0 4]
  have b: "buffer det_d1 ! nat (4 * width cfg_d + 0) = - 1000" by simp
  from t [THEN conjunct2, rule_format, of 5 9]
  have c: "buffer det_d1 ! nat (9 * width cfg_d + 5) = - 1000" by simp
  from t [THEN conjunct1] l have "length (buffer det_d1) = 80" by simp
  with findSegment_d h s a b c show ?thesis by blast
qed

text \<open>
  C3 as it is written does not hold. With tracking off, the first call on the frame with a
  marker returns the valid marker; it has set the pixels of the marker to 0 in the frame
  and moved the threshold from 384 to 382. The second call, on the frame and the detector
  as the first call left them, finds one dark region of 48 pixels and no marker, and
  returns the uninitialised segment, which is not valid.
\<close>

theorem second_call_counterexample:
  "\<not> track cfg_d \<and>
   findSegment cfg_d seg0 img_d seg0 det_d = Some (res_d, img_z, det_d1) \<and>
   findSegment cfg_d seg0 img_z seg0 det_d1 = Some (seg0, img_z, det_d2) \<and>
   s_valid res_d \<and> \<not> s_valid seg0 \<and> res_d \<noteq> seg0 \<and>
   data img_z \<noteq> data img_d \<and> threshold det_d = 384 \<and> threshold det_d1 = 382 \<and>
   buffer det_d1 = buffer det_d"
proof -
  have "s_valid res_d" "\<not> s_valid seg0" by (simp_all add: res_d_def seg0_def)
  moreover from this have "res_d \<noteq> seg0" by auto
  moreover have "data img_z \<noteq> data img_d" by (simp add: img_z_def img_d_def)
  moreover have "threshold det_d = 384" "threshold det_d1 = 382" "buffer det_d1 = buffer det_d"
    by (simp_all add: det_d_def det_d1_def det0_def)
  ultimately show ?thesis using findSegment_d findSegment_t by simp
qed

end
